theory Spec2Isabelle
  imports Main "HOL-Library.AList"
begin

section \<open>Interceptor chain assembler (HttpInterceptingManager)\<close>

text \<open>
  A handler takes a request and returns an event stream. The stream type \<open>'o\<close> and the
  request type \<open>'q\<close> stay abstract. Whatever a handler, an interceptor or a factory does
  besides returning (logging, counting, network traffic) acts on a world state \<open>'s\<close>
  that is passed through every call, so the order of the calls is observable.
\<close>

type_synonym ('q, 'o, 's) HttpHandler = "'q \<Rightarrow> 's \<Rightarrow> 'o \<times> 's"

text \<open>\<open>HttpInterceptor.intercept(req, next)\<close>.\<close>

type_synonym ('q, 'o, 's) HttpInterceptor = "'q \<Rightarrow> ('q, 'o, 's) HttpHandler \<Rightarrow> 's \<Rightarrow> 'o \<times> 's"

text \<open>
  \<open>InterceptorLike\<close>: an interceptor instance, or a function of no argument that returns
  one (\<open>typeof item === "function"\<close>). Each registered entry is a JavaScript object; the
  field \<open>ref\<close> is its identity, which is what \<open>indexOf\<close> compares.
\<close>

datatype ('q, 'o, 's) InterceptorItem =
    Instance "('q, 'o, 's) HttpInterceptor"
  | Factory "'s \<Rightarrow> ('q, 'o, 's) HttpInterceptor \<times> 's"

record ('q, 'o, 's) InterceptorLike =
  ref :: nat
  item :: "('q, 'o, 's) InterceptorItem"

text \<open>\<open>HttpInterceptorHandler(next, interceptor).handle(req)\<close>.\<close>

definition HttpInterceptorHandler ::
  "('q, 'o, 's) HttpHandler \<Rightarrow> ('q, 'o, 's) HttpInterceptor \<Rightarrow> ('q, 'o, 's) HttpHandler" where
  "HttpInterceptorHandler next interceptor = (\<lambda>req. interceptor req next)"

record ('q, 'o, 's) HttpInterceptingManager =
  chain :: "('q, 'o, 's) HttpHandler option"
  interceptorList :: "('q, 'o, 's) InterceptorLike list"


text \<open>
  \<open>_getInterceptorsResoved\<close>: \<open>Array.prototype.map\<close> visits the entries from the left; a
  factory entry is called, an instance is taken as it is.
\<close>

fun getInterceptorsResoved ::
  "('q, 'o, 's) InterceptorLike list \<Rightarrow> 's \<Rightarrow> ('q, 'o, 's) HttpInterceptor list \<times> 's" where
  "getInterceptorsResoved [] s = ([], s)"
| "getInterceptorsResoved (e # es) s =
     (case item e of
        Instance i \<Rightarrow> (case getInterceptorsResoved es s of (is, s') \<Rightarrow> (i # is, s'))
      | Factory f \<Rightarrow>
          (case f s of (i, s1) \<Rightarrow>
             (case getInterceptorsResoved es s1 of (is, s') \<Rightarrow> (i # is, s'))))"

text \<open>
  \<open>Array.prototype.reduceRight(callback, initialValue)\<close>: the accumulator starts as
  \<open>initialValue\<close>, the elements are taken from the last to the first, and the callback
  gets the accumulator first and the element second.
\<close>

definition reduceRight :: "('b \<Rightarrow> 'a \<Rightarrow> 'b) \<Rightarrow> 'b \<Rightarrow> 'a list \<Rightarrow> 'b" where
  "reduceRight callback initialValue xs = foldl callback initialValue (rev xs)"

text \<open>
  The chain of \<open>handle\<close>:
  \<open>resolved.reduceRight((next, interceptor) => new HttpInterceptorHandler(next, interceptor),
  adapter)\<close>.
\<close>

definition build_chain ::
  "('q, 'o, 's) HttpInterceptor list \<Rightarrow> ('q, 'o, 's) HttpHandler \<Rightarrow> ('q, 'o, 's) HttpHandler" where
  "build_chain resolved adapter =
     reduceRight (\<lambda>next interceptor. HttpInterceptorHandler next interceptor) adapter resolved"

text \<open>
  \<open>handle(adapter, req)\<close>: builds and stores the chain when there is none, then calls it.
  Returns the stream, the manager (its \<open>chain\<close> field may have been assigned) and the world.
\<close>

definition handle ::
  "('q, 'o, 's) HttpInterceptingManager \<Rightarrow> ('q, 'o, 's) HttpHandler \<Rightarrow> 'q \<Rightarrow> 's \<Rightarrow>
   'o \<times> ('q, 'o, 's) HttpInterceptingManager \<times> 's" where
  "handle m adapter req s =
     (case chain m of
        None \<Rightarrow>
          (case getInterceptorsResoved (interceptorList m) s of (resolved, s1) \<Rightarrow>
             (let c = build_chain resolved adapter in
              case c req s1 of (out, s2) \<Rightarrow> (out, m\<lparr>chain := Some c\<rparr>, s2)))
      | Some c \<Rightarrow> (case c req s of (out, s2) \<Rightarrow> (out, m, s2)))"

text \<open>\<open>add(interceptor)\<close>: \<open>push\<close>, then \<open>this.chain = null\<close>.\<close>

definition add ::
  "('q, 'o, 's) InterceptorLike \<Rightarrow> ('q, 'o, 's) HttpInterceptingManager \<Rightarrow>
   ('q, 'o, 's) HttpInterceptingManager" where
  "add interceptor m = m\<lparr>interceptorList := interceptorList m @ [interceptor], chain := None\<rparr>"

text \<open>
  \<open>Array.prototype.splice(start, 1)\<close> on an integer \<open>start\<close>: a negative start counts from
  the end (and stops at 0), a start beyond the end removes nothing.
\<close>

definition splice1 :: "int \<Rightarrow> 'a list \<Rightarrow> 'a list" where
  "splice1 start xs =
     (let len = int (length xs);
          actualStart = (if start < 0 then max (len + start) 0 else min start len)
      in take (nat actualStart) xs @ drop (Suc (nat actualStart)) xs)"

definition removeByIndex ::
  "int \<Rightarrow> ('q, 'o, 's) HttpInterceptingManager \<Rightarrow> ('q, 'o, 's) HttpInterceptingManager" where
  "removeByIndex index m = m\<lparr>interceptorList := splice1 index (interceptorList m), chain := None\<rparr>"

text \<open>\<open>list.indexOf(interceptor)\<close>: the first position holding the same object, or -1.\<close>

fun indexOf_ref :: "nat \<Rightarrow> ('q, 'o, 's) InterceptorLike list \<Rightarrow> int" where
  "indexOf_ref r [] = -1"
| "indexOf_ref r (e # es) =
     (if ref e = r then 0 else (let i = indexOf_ref r es in if i = -1 then -1 else i + 1))"

definition remove ::
  "('q, 'o, 's) InterceptorLike \<Rightarrow> ('q, 'o, 's) HttpInterceptingManager \<Rightarrow>
   ('q, 'o, 's) HttpInterceptingManager" where
  "remove interceptor m =
     (let list = interceptorList m;
          index = indexOf_ref (ref interceptor) list
      in (if index > -1 then m\<lparr>interceptorList := splice1 index list\<rparr> else m)\<lparr>chain := None\<rparr>)"

text \<open>
  The chain as the specification words it: \<open>I1 wraps (I2 wraps (... (In wraps T)))\<close>, where
  an interceptor that wraps a handler answers a request by its own \<open>intercept\<close>, which
  gets that handler as \<open>next\<close>.
\<close>

definition wraps ::
  "('q, 'o, 's) HttpInterceptor \<Rightarrow> ('q, 'o, 's) HttpHandler \<Rightarrow> ('q, 'o, 's) HttpHandler" where
  "wraps interceptor next = (\<lambda>req. interceptor req next)"

primrec spec_chain ::
  "('q, 'o, 's) HttpInterceptor list \<Rightarrow> ('q, 'o, 's) HttpHandler \<Rightarrow> ('q, 'o, 's) HttpHandler" where
  "spec_chain [] transport = transport"
| "spec_chain (i # rest) transport = wraps i (spec_chain rest transport)"

text \<open>
  A dispatch that goes through the whole list \<open>entries\<close> and ends in \<open>transport\<close>: the entries
  are resolved, and the request is given to the nested chain.
\<close>

definition spec_dispatch ::
  "('q, 'o, 's) InterceptorLike list \<Rightarrow> ('q, 'o, 's) HttpHandler \<Rightarrow> 'q \<Rightarrow> 's \<Rightarrow> 'o \<times> 's" where
  "spec_dispatch entries transport req s =
     (case getInterceptorsResoved entries s of (resolved, s1) \<Rightarrow> spec_chain resolved transport req s1)"

text \<open>The list without the first entry that is the object \<open>r\<close>.\<close>

primrec remove_first_ref ::
  "nat \<Rightarrow> ('q, 'o, 's) InterceptorLike list \<Rightarrow> ('q, 'o, 's) InterceptorLike list" where
  "remove_first_ref r [] = []"
| "remove_first_ref r (e # es) = (if ref e = r then es else e # remove_first_ref r es)"

text \<open>
  What a caller of \<open>handle\<close> sees (the stream and the world), and the manager that the
  call leaves behind.
\<close>

definition seen :: "'o \<times> 'm \<times> 's \<Rightarrow> 'o \<times> 's" where
  "seen r = (fst r, snd (snd r))"

definition manager_after :: "'o \<times> 'm \<times> 's \<Rightarrow> 'm" where
  "manager_after r = fst (snd r)"



section \<open>Strings, arrays and maps of the JavaScript runtime\<close>

text \<open>
  A JavaScript string is modelled as a \<open>string\<close>: a list of characters with codes below
  256. Strings with code units from 256 on are outside the model.

  \<open>Array.prototype.indexOf\<close> (the first position of an element, or -1) and
  \<open>Array.prototype.join\<close>.
\<close>

fun indexOf :: "'a \<Rightarrow> 'a list \<Rightarrow> int" where
  "indexOf x [] = -1"
| "indexOf x (y # ys) = (if y = x then 0 else (let i = indexOf x ys in if i = -1 then -1 else i + 1))"

fun join :: "string \<Rightarrow> string list \<Rightarrow> string" where
  "join sep [] = []"
| "join sep [x] = x"
| "join sep (x # y # ys) = x @ sep @ join sep (y # ys)"

text \<open>
  \<open>String.prototype.split("&")\<close>: the pieces between the separators; the empty string
  gives one empty piece.
\<close>

fun split_amp :: "string \<Rightarrow> string list" where
  "split_amp [] = [[]]"
| "split_amp (c # cs) =
     (if c = CHR ''&'' then [] # split_amp cs
      else (case split_amp cs of [] \<Rightarrow> [[c]] | w # ws \<Rightarrow> (c # w) # ws))"

text \<open>\<open>String.prototype.slice(start, end)\<close> and \<open>slice(start)\<close> for indices within the string.\<close>

definition slice :: "string \<Rightarrow> nat \<Rightarrow> nat \<Rightarrow> string" where
  "slice s start end = take (end - start) (drop start s)"

definition slice_from :: "string \<Rightarrow> nat \<Rightarrow> string" where
  "slice_from s start = drop start s"

text \<open>
  A JavaScript \<open>Map\<close> with string keys: the entries in insertion order. \<open>set\<close> on a key
  that is present replaces the value where the key stands, \<open>set\<close> on a new key adds the
  entry at the end, \<open>delete\<close> takes the entry out.
\<close>

type_synonym 'v jsmap = "(string \<times> 'v) list"

abbreviation Map_get :: "'v jsmap \<Rightarrow> string \<Rightarrow> 'v option" where
  "Map_get m k \<equiv> map_of m k"


abbreviation Map_set :: "string \<Rightarrow> 'v \<Rightarrow> 'v jsmap \<Rightarrow> 'v jsmap" where
  "Map_set k v m \<equiv> AList.update k v m"

abbreviation Map_delete :: "string \<Rightarrow> 'v jsmap \<Rightarrow> 'v jsmap" where
  "Map_delete k m \<equiv> AList.delete k m"

abbreviation Map_keys :: "'v jsmap \<Rightarrow> string list" where
  "Map_keys m \<equiv> map fst m"

section \<open>The parameter codec (HttpUrlEncodingCodec)\<close>

text \<open>
  \<open>HttpParameterCodec\<close>. A decoder can raise an exception (\<open>decodeURIComponent\<close> raises
  URIError): then it has no result.
\<close>

record HttpParameterCodec =
  encodeKey :: "string \<Rightarrow> string"
  encodeValue :: "string \<Rightarrow> string"
  decodeKey :: "string \<Rightarrow> string option"
  decodeValue :: "string \<Rightarrow> string option"

text \<open>
  \<open>encodeURIComponent\<close> (ECMAScript, Encode with the set of unescaped characters
  \<open>A-Z a-z 0-9 - _ . ! ~ * ' ( )\<close>): every other character is replaced by the
  percent-escaped bytes of its UTF-8 form, with capital hexadecimal digits. A character
  with a code from 128 to 255 has two UTF-8 bytes.
\<close>

definition hexdigit :: "nat \<Rightarrow> char" where
  "hexdigit n = ''0123456789ABCDEF'' ! n"

definition percent :: "nat \<Rightarrow> string" where
  "percent byte = [CHR ''%'', hexdigit (byte div 16), hexdigit (byte mod 16)]"

definition uriUnescaped :: "char \<Rightarrow> bool" where
  "uriUnescaped c =
     (c \<in> set ''ABCDEFGHIJKLMNOPQRSTUVWXYZabcdefghijklmnopqrstuvwxyz0123456789-_.!~*()''
      \<or> c = CHR 0x27)"

definition encodeChar :: "char \<Rightarrow> string" where
  "encodeChar c =
     (if uriUnescaped c then [c]
      else (let n = (of_char c :: nat) in
            if n < 128 then percent n
            else percent (192 + n div 64) @ percent (128 + n mod 64)))"

definition encodeURIComponent :: "string \<Rightarrow> string" where
  "encodeURIComponent s = concat (map encodeChar s)"

text \<open>
  \<open>decodeURIComponent\<close> (ECMAScript, Decode with no reserved characters): a character
  other than \<open>%\<close> stays; \<open>%\<close> must be followed by two hexadecimal digits, which give a
  byte. A byte below 128 is the character with that code. The bytes C2 and C3 followed by
  an escaped byte from 80 to BF give the character with a code from 128 to 255. Every other
  byte sequence either raises URIError (malformed UTF-8) or denotes a character beyond 255,
  which is outside the model: in both cases the model has no result.
\<close>

definition hexval :: "char \<Rightarrow> nat option" where
  "hexval c =
     (let i = indexOf c ''0123456789ABCDEF''; j = indexOf c ''0123456789abcdef'' in
      if i \<noteq> -1 then Some (nat i) else if j \<noteq> -1 then Some (nat j) else None)"

definition hexbyte :: "char \<Rightarrow> char \<Rightarrow> nat option" where
  "hexbyte a b =
     (case hexval a of None \<Rightarrow> None
      | Some x \<Rightarrow> (case hexval b of None \<Rightarrow> None | Some y \<Rightarrow> Some (16 * x + y)))"

fun decodeURIComponent :: "string \<Rightarrow> string option" where
  "decodeURIComponent [] = Some []"
| "decodeURIComponent (c # cs) =
     (if c \<noteq> CHR ''%'' then map_option (Cons c) (decodeURIComponent cs)
      else
        (case cs of
           a # b # rest \<Rightarrow>
             (case hexbyte a b of
                None \<Rightarrow> None
              | Some byte \<Rightarrow>
                  if byte < 128 then map_option (Cons (char_of byte)) (decodeURIComponent rest)
                  else if byte = 194 \<or> byte = 195 then
                    (case rest of
                       p # a2 # b2 # rest2 \<Rightarrow>
                         (if p \<noteq> CHR ''%'' then None
                          else (case hexbyte a2 b2 of
                                  None \<Rightarrow> None
                                | Some byte2 \<Rightarrow>
                                    if 128 \<le> byte2 \<and> byte2 < 192 then
                                      map_option (Cons (char_of ((byte - 192) * 64 + (byte2 - 128))))
                                        (decodeURIComponent rest2)
                                    else None))
                     | _ \<Rightarrow> None)
                  else None)
         | _ \<Rightarrow> None))"

text \<open>
  \<open>standardEncoding\<close>: \<open>encodeURIComponent(v).replace(/%(\d[a-f0-9])/gi, (s, t) =>
  STANDARD_ENCODING_REPLACEMENTS[t] ?? s)\<close>. The global replace goes through the string
  from the left; a match is \<open>%\<close>, a decimal digit and a hexadecimal digit of either case;
  the text after a match is searched from the end of the match.
\<close>

definition STANDARD_ENCODING_REPLACEMENTS :: "(string \<times> string) list" where
  "STANDARD_ENCODING_REPLACEMENTS =
     [(''40'', ''@''), (''3A'', '':''), (''24'', ''$''), (''2C'', '',''), (''3B'', '';''),
      (''2B'', ''+''), (''3D'', ''=''), (''3F'', ''?''), (''2F'', ''/'')]"

definition isDigit :: "char \<Rightarrow> bool" where
  "isDigit c = (c \<in> set ''0123456789'')"

definition isHexLetterOrDigit :: "char \<Rightarrow> bool" where
  "isHexLetterOrDigit c = (c \<in> set ''abcdefABCDEF0123456789'')"

fun replaceStandard :: "string \<Rightarrow> string" where
  "replaceStandard (p # d # x # rest) =
     (if p = CHR ''%'' \<and> isDigit d \<and> isHexLetterOrDigit x then
        (case map_of STANDARD_ENCODING_REPLACEMENTS [d, x] of
           Some r \<Rightarrow> r
         | None \<Rightarrow> [p, d, x]) @ replaceStandard rest
      else p # replaceStandard (d # x # rest))"
| "replaceStandard s = s"

definition standardEncoding :: "string \<Rightarrow> string" where
  "standardEncoding v = replaceStandard (encodeURIComponent v)"

definition HttpUrlEncodingCodec :: HttpParameterCodec where
  "HttpUrlEncodingCodec =
     \<lparr>encodeKey = standardEncoding, encodeValue = standardEncoding,
      decodeKey = decodeURIComponent, decodeValue = decodeURIComponent\<rparr>"

section \<open>The parameter container (HttpParams)\<close>

text \<open>
  \<open>paramParser\<close>. The map it builds and the arrays in it are new and known to nobody else
  until it returns, so the model computes the map with the arrays by value; the
  constructor puts the arrays into the store. A decoder that raises ends the loop, and
  \<open>paramParser\<close> has no result.
\<close>

definition stripQuestion :: "string \<Rightarrow> string" where
  "stripQuestion s = (case s of [] \<Rightarrow> [] | c # cs \<Rightarrow> if c = CHR ''?'' then cs else s)"

definition parseParam :: "HttpParameterCodec \<Rightarrow> string \<Rightarrow> (string \<times> string) option" where
  "parseParam codec prm =
     (let eqIdx = indexOf (CHR ''='') prm in
      if eqIdx = -1 then
        (case decodeKey codec prm of None \<Rightarrow> None | Some key \<Rightarrow> Some (key, []))
      else
        (case decodeKey codec (slice prm 0 (nat eqIdx)) of
           None \<Rightarrow> None
         | Some key \<Rightarrow>
             (case decodeValue codec (slice_from prm (nat eqIdx + 1)) of
                None \<Rightarrow> None
              | Some val \<Rightarrow> Some (key, val))))"

fun parseParams ::
  "HttpParameterCodec \<Rightarrow> string list \<Rightarrow> (string list) jsmap \<Rightarrow> (string list) jsmap option" where
  "parseParams codec [] m = Some m"
| "parseParams codec (prm # prms) m =
     (case parseParam codec prm of
        None \<Rightarrow> None
      | Some (key, val) \<Rightarrow>
          (let list = (case Map_get m key of None \<Rightarrow> [] | Some l \<Rightarrow> l)
           in parseParams codec prms (Map_set key (list @ [val]) m)))"

definition paramParser :: "string \<Rightarrow> HttpParameterCodec \<Rightarrow> (string list) jsmap option" where
  "paramParser rawParams codec =
     (if length rawParams > 0 then parseParams codec (split_amp (stripQuestion rawParams)) []
      else Some [])"

text \<open>\<open>valueToString\<close> is \<open>`${value}`\<close>; the value of an update is a string or absent.\<close>

definition valueToString :: "string option \<Rightarrow> string" where
  "valueToString v = (case v of None \<Rightarrow> ''undefined'' | Some s \<Rightarrow> s)"

datatype Op = Op_a | Op_d | Op_s

record Update =
  param :: string
  uvalue :: "string option"
  op :: Op

text \<open>
  An \<open>HttpParams\<close> object. The values of its map are arrays, and an array is an object that
  several maps can hold: the map stores the address of the array, the store has the
  contents. \<open>cloneFrom\<close> is the address of another \<open>HttpParams\<close> object.
\<close>

record HttpParams =
  pmap :: "nat jsmap option"
  encoder :: HttpParameterCodec
  updates :: "Update list option"
  cloneFrom :: "nat option"

text \<open>
  The store: the \<open>HttpParams\<close> objects by address (an address is a position in the list,
  a new object goes to the end), the contents of the arrays by address with the next free
  address, and the static field \<open>HttpClientDefaults._encoder\<close>.
\<close>

record heap =
  objs :: "HttpParams list"
  arrays :: "nat \<Rightarrow> string list"
  next_array :: nat
  defaults_encoder :: "HttpParameterCodec option"

definition empty_heap :: heap where
  "empty_heap = \<lparr>objs = [], arrays = (\<lambda>_. []), next_array = 0, defaults_encoder = None\<rparr>"

text \<open>
  \<open>HttpClientDefaults.encoder\<close>: the codec that was set, or an \<open>HttpUrlEncodingCodec\<close>. The
  getter also keeps the codec it creates; that codec has no state, so keeping it is not
  observable and the model leaves the field as it is.
\<close>

definition HttpClientDefaults_encoder :: "heap \<Rightarrow> HttpParameterCodec" where
  "HttpClientDefaults_encoder h =
     (case defaults_encoder h of None \<Rightarrow> HttpUrlEncodingCodec | Some e \<Rightarrow> e)"

definition setHttpParameterCodec :: "HttpParameterCodec \<Rightarrow> heap \<Rightarrow> heap" where
  "setHttpParameterCodec e h = h\<lparr>defaults_encoder := Some e\<rparr>"

text \<open>A new array with the given contents; a new \<open>HttpParams\<close> object.\<close>

definition new_array :: "string list \<Rightarrow> heap \<Rightarrow> nat \<times> heap" where
  "new_array xs h =
     (next_array h, h\<lparr>arrays := (arrays h)(next_array h := xs), next_array := Suc (next_array h)\<rparr>)"

definition new_object :: "HttpParams \<Rightarrow> heap \<Rightarrow> nat \<times> heap" where
  "new_object p h = (length (objs h), h\<lparr>objs := objs h @ [p]\<rparr>)"

text \<open>Puts the arrays of a map into the store, entry by entry.\<close>

fun store_map :: "(string list) jsmap \<Rightarrow> nat jsmap \<Rightarrow> heap \<Rightarrow> nat jsmap \<times> heap" where
  "store_map [] m h = (m, h)"
| "store_map ((key, xs) # rest) m h =
     (case new_array xs h of (ad, h') \<Rightarrow> store_map rest (Map_set key ad m) h')"

text \<open>
  The options of the constructor. \<open>fromObject\<close> is given as the list of its own keys in
  the order of \<open>Object.keys\<close>, each with its value: one scalar or an array of scalars. The
  scalars are modelled as strings; the source also takes numbers and booleans and stores
  them as they are.
\<close>

datatype ParamValue = Scalar string | Array "string list"

record HttpParamsOptions =
  fromString :: "string option"
  fromObject :: "(string \<times> ParamValue) list option"
  encoder_opt :: "HttpParameterCodec option"

text \<open>
  The constructor. \<open>!!options.fromString\<close> holds for a string that is given and not empty,
  \<open>!!options.fromObject\<close> for an object that is given. Returns the error thrown, or the
  address of the new object and the store.
\<close>

datatype error =
    ConfigError  \<comment> \<open>\<open>Error("Cannot specify both fromString and fromObject.")\<close>\<close>
  | DecodeError  \<comment> \<open>the exception of a decoder, passed on by \<open>paramParser\<close>\<close>

definition truthy_string :: "string option \<Rightarrow> bool" where
  "truthy_string s = (case s of None \<Rightarrow> False | Some x \<Rightarrow> x \<noteq> [])"

definition new_HttpParams :: "HttpParamsOptions \<Rightarrow> heap \<Rightarrow> error + (nat \<times> heap)" where
  "new_HttpParams options h =
     (let enc = (case encoder_opt options of Some e \<Rightarrow> e | None \<Rightarrow> HttpClientDefaults_encoder h) in
      if truthy_string (fromString options) then
        (if fromObject options \<noteq> None then Inl ConfigError
         else (case paramParser (case fromString options of None \<Rightarrow> [] | Some raw \<Rightarrow> raw) enc of
                 None \<Rightarrow> Inl DecodeError
               | Some parsed \<Rightarrow>
                   (case store_map parsed [] h of (m, h') \<Rightarrow>
                      Inr (new_object \<lparr>pmap = Some m, encoder = enc, updates = None, cloneFrom = None\<rparr> h'))))
      else
        (case fromObject options of
           Some obj \<Rightarrow>
             (case store_map (map (\<lambda>(key, v). (key, case v of Array xs \<Rightarrow> xs | Scalar x \<Rightarrow> [x])) obj) [] h
              of (m, h') \<Rightarrow>
                Inr (new_object \<lparr>pmap = Some m, encoder = enc, updates = None, cloneFrom = None\<rparr> h'))
         | None \<Rightarrow>
             Inr (new_object \<lparr>pmap = None, encoder = enc, updates = None, cloneFrom = None\<rparr> h)))"

text \<open>
  \<open>clone(update)\<close>: a new object made by the constructor with the encoder alone (its last
  branch: no map), then \<open>cloneFrom = this.cloneFrom || this\<close> and
  \<open>updates = !update ? this.updates?.slice() ?? [] : (this.updates ?? []).concat(update)\<close>.
  The argument is absent, or the updates to add (one update, or the array that
  \<open>appendAll\<close> passes). The receiver must be an object of the store.
\<close>

definition HttpParams_clone :: "nat \<Rightarrow> Update list option \<Rightarrow> heap \<Rightarrow> nat \<times> heap" where
  "HttpParams_clone this update h =
     (let p = objs h ! this;
          old = (case updates p of None \<Rightarrow> [] | Some us \<Rightarrow> us)
      in new_object
           \<lparr>pmap = None, encoder = encoder p,
            updates = Some (case update of None \<Rightarrow> old | Some us \<Rightarrow> old @ us),
            cloneFrom = Some (case cloneFrom p of Some c \<Rightarrow> c | None \<Rightarrow> this)\<rparr> h)"

definition HttpParams_append :: "nat \<Rightarrow> string \<Rightarrow> string \<Rightarrow> heap \<Rightarrow> nat \<times> heap" where
  "HttpParams_append this prm v h = HttpParams_clone this (Some [\<lparr>param = prm, uvalue = Some v, op = Op_a\<rparr>]) h"



text \<open>
  One step of the replay loop of \<open>init\<close>, on the map of the object and the arrays of the
  store. \<open>push\<close> and \<open>splice\<close> change the array that the map holds, in place. The empty
  array that \<open>this.map.get(param) || []\<close> makes in the delete branch is never put into the
  map, so it gets no address.
\<close>

definition replay_update :: "nat jsmap \<times> (nat \<Rightarrow> string list) \<times> nat \<Rightarrow> Update \<Rightarrow> nat jsmap \<times> (nat \<Rightarrow> string list) \<times> nat" where
  "replay_update st update =
     (case st of (m, ars, nxt) \<Rightarrow>
        (case op update of
           Op_d \<Rightarrow>
             (if uvalue update \<noteq> None then
                (case Map_get m (param update) of
                   None \<Rightarrow> (Map_delete (param update) m, ars, nxt)
                 | Some ad \<Rightarrow>
                     (let base = ars ad;
                          idx = indexOf (valueToString (uvalue update)) base;
                          base' = (if idx \<noteq> -1 then splice1 idx base else base);
                          ars' = ars(ad := base')
                      in if length base' > 0 then (Map_set (param update) ad m, ars', nxt)
                         else (Map_delete (param update) m, ars', nxt)))
              else (Map_delete (param update) m, ars, nxt))
         | _ \<Rightarrow>
             (case (if op update = Op_a then Map_get m (param update) else None) of
                Some ad \<Rightarrow>
                  (Map_set (param update) ad m,
                   ars(ad := ars ad @ [valueToString (uvalue update)]), nxt)
              | None \<Rightarrow>
                  (Map_set (param update) nxt m,
                   ars(nxt := [valueToString (uvalue update)]), Suc nxt))))"

text \<open>
  \<open>cloneFrom.keys().forEach((key) => this.map.set(key, cloneFrom.map.get(key)))\<close>: the entry
  of the clone holds the same array as the entry of the source.
\<close>

definition copy_entries :: "nat jsmap \<Rightarrow> nat jsmap \<Rightarrow> nat jsmap" where
  "copy_entries source target =
     foldl (\<lambda>m key. case Map_get source key of None \<Rightarrow> m | Some ad \<Rightarrow> Map_set key ad m)
       target (Map_keys source)"

definition set_object :: "nat \<Rightarrow> HttpParams \<Rightarrow> heap \<Rightarrow> heap" where
  "set_object a p h = h\<lparr>objs := (objs h)[a := p]\<rparr>"

text \<open>
  \<open>init\<close>. The result is the store afterwards. There is no result (\<open>None\<close>) where the
  JavaScript has none either: the address is not an object of the store, or \<open>updates\<close> or
  a map is null where the source asserts that it is not, or the recursion through
  \<open>cloneFrom\<close> does not end. \<open>this.cloneFrom.keys()\<close> calls \<open>init\<close> on the source once more.
\<close>

partial_function (option) HttpParams_init :: "nat \<Rightarrow> heap \<Rightarrow> heap option" where
  "HttpParams_init this h =
     (if this < length (objs h) then
        (let h1 = (if pmap (objs h ! this) = None
                   then set_object this ((objs h ! this)\<lparr>pmap := Some []\<rparr>) h else h)
         in case cloneFrom (objs h1 ! this) of
              None \<Rightarrow> Some h1
            | Some cf \<Rightarrow>
                Option.bind (HttpParams_init cf h1) (\<lambda>h2.
                Option.bind (HttpParams_init cf h2) (\<lambda>h3.
                  if cf < length (objs h3) \<and> this < length (objs h3) then
                    (case (pmap (objs h3 ! cf), pmap (objs h3 ! this), updates (objs h3 ! this)) of
                       (Some source, Some target, Some us) \<Rightarrow>
                         (case foldl replay_update (copy_entries source target, arrays h3, next_array h3) us
                          of (m, ars, nxt) \<Rightarrow>
                            Some (set_object this
                                    ((objs h3 ! this)\<lparr>pmap := Some m, cloneFrom := None, updates := None\<rparr>)
                                    (h3\<lparr>arrays := ars, next_array := nxt\<rparr>)))
                     | _ \<Rightarrow> None)
                  else None)))
      else None)"

declare HttpParams_init.simps [code]


text \<open>
  \<open>get\<close>: \<open>!!res ? res[0] : null\<close>. An array is truthy also when it is empty, and the first
  element of an empty array is \<open>undefined\<close>.
\<close>

datatype jsvalue = Null | Undefined | Str string

definition HttpParams_get :: "nat \<Rightarrow> string \<Rightarrow> heap \<Rightarrow> (jsvalue \<times> heap) option" where
  "HttpParams_get this prm h =
     Option.bind (HttpParams_init this h) (\<lambda>h'.
       case pmap (objs h' ! this) of
         None \<Rightarrow> None
       | Some m \<Rightarrow>
           Some (case Map_get m prm of
                   None \<Rightarrow> Null
                 | Some ad \<Rightarrow> (case arrays h' ad of [] \<Rightarrow> Undefined | x # _ \<Rightarrow> Str x), h'))"

text \<open>\<open>getAll\<close> returns the array of the map itself; the model returns its contents.\<close>

definition HttpParams_getAll :: "nat \<Rightarrow> string \<Rightarrow> heap \<Rightarrow> (string list option \<times> heap) option" where
  "HttpParams_getAll this prm h =
     Option.bind (HttpParams_init this h) (\<lambda>h'.
       case pmap (objs h' ! this) of
         None \<Rightarrow> None
       | Some m \<Rightarrow> Some (map_option (arrays h') (Map_get m prm), h'))"

definition HttpParams_keys :: "nat \<Rightarrow> heap \<Rightarrow> (string list \<times> heap) option" where
  "HttpParams_keys this h =
     Option.bind (HttpParams_init this h) (\<lambda>h'.
       case pmap (objs h' ! this) of None \<Rightarrow> None | Some m \<Rightarrow> Some (Map_keys m, h'))"

text \<open>
  \<open>toString\<close>: \<open>init\<close>, then \<open>keys()\<close> (which calls \<open>init\<close> again); for each key the
  pairs \<open>eKey=eValue\<close> of its values joined by \<open>&\<close>; the empty results are left out; the
  rest is joined by \<open>&\<close>.
\<close>

definition HttpParams_toString :: "nat \<Rightarrow> heap \<Rightarrow> (string \<times> heap) option" where
  "HttpParams_toString this h =
     Option.bind (HttpParams_init this h) (\<lambda>h1.
     Option.bind (HttpParams_keys this h1) (\<lambda>(ks, h2).
       case pmap (objs h2 ! this) of
         None \<Rightarrow> None
       | Some m \<Rightarrow>
           (let codec = encoder (objs h2 ! this) in
            Some (join ''&''
                    (filter (\<lambda>prm. prm \<noteq> [])
                       (map (\<lambda>key.
                               (let eKey = encodeKey codec key in
                                join ''&''
                                  (map (\<lambda>v. eKey @ ''='' @ encodeValue codec v)
                                     (case Map_get m key of None \<Rightarrow> [] | Some ad \<Rightarrow> arrays h2 ad))))
                          ks)),
                  h2))))"



text \<open>
  The state in which the constructor, \<open>clone\<close> and \<open>init\<close> leave an object of the store:
  either \<open>cloneFrom\<close> and \<open>updates\<close> are both null and the keys of the map, if there
  is one, are distinct (as the keys of a \<open>Map\<close> are), or the object is a clone that has not
  been resolved: it has no map, it has a list of updates, and \<open>cloneFrom\<close> is another
  object of the store, one whose own \<open>cloneFrom\<close> is null.
\<close>

definition consistent :: "heap \<Rightarrow> nat \<Rightarrow> bool" where
  "consistent h this =
     (this < length (objs h) \<and>
      (case cloneFrom (objs h ! this) of
         None \<Rightarrow>
           updates (objs h ! this) = None \<and>
           (case pmap (objs h ! this) of None \<Rightarrow> True | Some m \<Rightarrow> distinct (Map_keys m))
       | Some cf \<Rightarrow>
           pmap (objs h ! this) = None \<and> updates (objs h ! this) \<noteq> None \<and>
           cf < length (objs h) \<and> cf \<noteq> this \<and>
           cloneFrom (objs h ! cf) = None \<and> updates (objs h ! cf) = None \<and>
           (case pmap (objs h ! cf) of None \<Rightarrow> True | Some m \<Rightarrow> distinct (Map_keys m))))"

text \<open>
  The object and the store that a call of the constructor returns (the empty store where
  the constructor raises).
\<close>

definition returned :: "error + (nat \<times> heap) \<Rightarrow> nat \<times> heap" where
  "returned r = (case r of Inl e \<Rightarrow> (0, empty_heap) | Inr x \<Rightarrow> x)"

text \<open>The map of an object, empty where the field is null.\<close>

definition source_map :: "heap \<Rightarrow> nat \<Rightarrow> nat jsmap" where
  "source_map h this = (case pmap (objs h ! this) of None \<Rightarrow> [] | Some m \<Rightarrow> m)"

text \<open>
  What resolving an object gives: its map, and the arrays of the store afterwards with the
  next free address.
\<close>

definition resolve :: "heap \<Rightarrow> nat \<Rightarrow> (nat jsmap \<times> (nat \<Rightarrow> string list) \<times> nat) option" where
  "resolve h this =
     Option.bind (HttpParams_init this h) (\<lambda>h'.
       case pmap (objs h' ! this) of None \<Rightarrow> None | Some m \<Rightarrow> Some (m, arrays h', next_array h'))"


definition then_getAll :: "nat \<times> heap \<Rightarrow> string \<Rightarrow> string list option option" where
  "then_getAll r prm = map_option fst (HttpParams_getAll (fst r) prm (snd r))"



definition then_toString :: "nat \<times> heap \<Rightarrow> string option" where
  "then_toString r = map_option fst (HttpParams_toString (fst r) (snd r))"

section \<open>The request value (HttpRequest)\<close>

text \<open>
  \<open>HttpHeaders\<close> and \<open>HttpContext\<close> are classes of the repository that are not among the
  sources at hand. What the constructor of \<open>HttpRequest\<close> uses of them is taken as given.
\<close>

record ('hd, 'cx) externals =
  new_HttpHeaders :: 'hd
  HttpHeaders_clone :: "'hd \<Rightarrow> 'hd"
  new_HttpContext :: 'cx

text \<open>\<open>HttpRequestInit\<close>; \<open>params\<close> is the address of an \<open>HttpParams\<close> object.\<close>

record ('b, 'hd, 'cx) HttpRequestInit =
  init_method :: string
  init_url :: string
  init_body :: "'b option"
  init_params :: "nat option"
  init_headers :: "'hd option"
  init_reportProgress :: "bool option"
  init_responseType :: "string option"
  init_withCredentials :: "bool option"
  init_context :: "'cx option"

text \<open>
  The fields of an \<open>HttpRequest\<close>. The constructor never assigns \<open>this.url\<close>, so the field
  stays undefined (\<open>None\<close>).
\<close>

record ('b, 'hd, 'cx) HttpRequest =
  body :: "'b option"
  params :: nat
  headers :: 'hd
  reportProgress :: bool
  withCredentials :: bool
  req_method :: string
  url :: "string option"
  urlWithParams :: string
  responseType :: string
  req_context :: 'cx

definition mightHaveBody :: "string \<Rightarrow> bool" where
  "mightHaveBody m =
     (if m = ''DELETE'' \<or> m = ''GET'' \<or> m = ''HEAD'' \<or> m = ''OPTIONS'' \<or> m = ''JSONP''
      then False else True)"

text \<open>
  The text of the last branch of the constructor: the separator between the URL and the
  parameters, from the first position of \<open>?\<close> in the URL.
\<close>

definition joinUrl :: "string \<Rightarrow> string \<Rightarrow> string" where
  "joinUrl u prms =
     (if length prms = 0 then u
      else (let qIdx = indexOf (CHR ''?'') u;
                sep = (if qIdx = -1 then ''?'' else if qIdx < int (length u) - 1 then ''&'' else [])
            in u @ sep @ prms))"

text \<open>
  The constructor. It calls \<open>toString\<close> on its clone of the parameters, which resolves the
  clone, so it returns the store as well; it has no result where \<open>init\<close> has none.
\<close>

definition new_HttpRequest ::
  "('hd, 'cx) externals \<Rightarrow> ('b, 'hd, 'cx) HttpRequestInit \<Rightarrow> heap \<Rightarrow>
   (('b, 'hd, 'cx) HttpRequest \<times> heap) option" where
  "new_HttpRequest ext options h =
     (let u = init_url options;
          this = \<lparr>body = (if mightHaveBody (init_method options) then init_body options else None),
                  params = 0,
                  headers = (case init_headers options of
                               Some hs \<Rightarrow> HttpHeaders_clone ext hs | None \<Rightarrow> new_HttpHeaders ext),
                  reportProgress = (init_reportProgress options = Some True),
                  withCredentials = (init_withCredentials options = Some True),
                  req_method = init_method options,
                  url = None,
                  urlWithParams = u,
                  responseType = (case init_responseType options of
                                    None \<Rightarrow> ''json'' | Some t \<Rightarrow> if t = [] then ''json'' else t),
                  req_context = (case init_context options of
                                   Some cx \<Rightarrow> cx | None \<Rightarrow> new_HttpContext ext)\<rparr>
      in case init_params options of
           None \<Rightarrow>
             (case new_HttpParams \<lparr>fromString = None, fromObject = None, encoder_opt = None\<rparr> h of
                Inl e \<Rightarrow> None
              | Inr (a, h') \<Rightarrow> Some (this\<lparr>params := a, urlWithParams := u\<rparr>, h'))
         | Some p \<Rightarrow>
             (case HttpParams_clone p None h of
                (cl, h1) \<Rightarrow>
                  Option.bind (HttpParams_toString cl h1) (\<lambda>(prms, h2).
                    Some (this\<lparr>params := cl, urlWithParams := joinUrl u prms\<rparr>, h2))))"

text \<open>
  The separator as the specification words it, with the last case read as: the only \<open>?\<close>
  of the URL is its last character.
\<close>

definition spec_separator :: "string \<Rightarrow> string" where
  "spec_separator u =
     (if CHR ''?'' \<notin> set u then ''?''
      else if CHR ''?'' \<in> set (butlast u) then ''&''
      else [])"

definition spec_urlWithParams :: "string \<Rightarrow> string \<Rightarrow> string" where
  "spec_urlWithParams u prms = (if prms = [] then u else u @ spec_separator u @ prms)"

text \<open>The text that \<open>toString\<close> makes of a map and the arrays of the store.\<close>

definition params_text :: "HttpParameterCodec \<Rightarrow> nat jsmap \<Rightarrow> (nat \<Rightarrow> string list) \<Rightarrow> string" where
  "params_text codec m ars =
     join ''&''
       (filter (\<lambda>prm. prm \<noteq> [])
          (map (\<lambda>key.
                  (let eKey = encodeKey codec key in
                   join ''&''
                     (map (\<lambda>v. eKey @ ''='' @ encodeValue codec v)
                        (case Map_get m key of None \<Rightarrow> [] | Some ad \<Rightarrow> ars ad))))
             (Map_keys m)))"

section \<open>The client (HttpClient.request)\<close>

text \<open>
  The body of a response as the checks of \<open>request\<close> see it: null, an \<open>ArrayBuffer\<close>, a
  \<open>Blob\<close>, a string, or any other value. An event is an \<open>HttpResponse\<close> (with its body and
  the rest of it) or an event of another class. \<open>HttpResponse\<close> is a class of the
  repository that is not among the sources at hand; only its field \<open>body\<close> is used.
\<close>

datatype 'j ResponseBody =
    NullBody
  | ArrayBufferBody "nat list"
  | BlobBody "nat list"
  | StringBody string
  | OtherBody 'j

datatype ('j, 'x, 'e) HttpEvent =
    Response "'j ResponseBody" 'x
  | OtherEvent 'e

text \<open>
  What one subscriber of an observable gets: the values in their order, and then the end:
  completion, a failure, or nothing more.
\<close>

datatype 'f ending = Completed | Failed 'f | Open

datatype ('a, 'f) run = Run "'a list" "'f ending"

text \<open>A failure is an \<open>Error\<close> thrown in the pipeline, or whatever the transport reports.\<close>

datatype 't failure = JsError string | TransportFailure 't

text \<open>The operator \<open>filter\<close> of rxjs.\<close>

fun filter_run :: "('a \<Rightarrow> bool) \<Rightarrow> ('a, 'f) run \<Rightarrow> ('a, 'f) run" where
  "filter_run keep (Run xs e) = Run (filter keep xs) e"

text \<open>
  The operator \<open>map\<close> of rxjs: when the function throws for a value, the stream fails with
  what was thrown, after the results for the values before it, and nothing follows.
\<close>

fun map_values :: "('a \<Rightarrow> 'f + 'b) \<Rightarrow> 'a list \<Rightarrow> 'f ending \<Rightarrow> ('b, 'f) run" where
  "map_values f [] e = Run [] e"
| "map_values f (x # xs) e =
     (case f x of
        Inl thrown \<Rightarrow> Run [] (Failed thrown)
      | Inr y \<Rightarrow> (case map_values f xs e of Run ys e' \<Rightarrow> Run (y # ys) e'))"

fun map_run :: "('a \<Rightarrow> 'f + 'b) \<Rightarrow> ('a, 'f) run \<Rightarrow> ('b, 'f) run" where
  "map_run f (Run xs e) = map_values f xs e"

record ('q, 'o, 's) HttpClient =
  client_adapter :: "('q, 'o, 's) HttpHandler"
  client_interceptors :: "('q, 'o, 's) HttpInterceptingManager option"

text \<open>
  The function under \<open>defer\<close>:
  \<open>this.interceptors?.handle(this.adapter, req) ?? this.adapter.handle(req)\<close>. It runs when
  the observable is subscribed to, on the client as it is then.
\<close>

definition dispatch ::
  "('q, 'o, 's) HttpClient \<Rightarrow> 'q \<Rightarrow> 's \<Rightarrow> 'o \<times> ('q, 'o, 's) HttpClient \<times> 's" where
  "dispatch client req s =
     (case client_interceptors client of
        None \<Rightarrow> (case client_adapter client req s of (out, s') \<Rightarrow> (out, client, s'))
      | Some m \<Rightarrow>
          (case handle m (client_adapter client) req s of
             (out, m', s') \<Rightarrow> (out, client\<lparr>client_interceptors := Some m'\<rparr>, s')))"

text \<open>The three functions given to \<open>map\<close> in the branch for \<open>body\<close>, and the one for \<open>json\<close>.\<close>

definition isResponse :: "('j, 'x, 'e) HttpEvent \<Rightarrow> bool" where
  "isResponse ev = (case ev of Response b x \<Rightarrow> True | OtherEvent e \<Rightarrow> False)"

definition body_of :: "('j, 'x, 'e) HttpEvent \<Rightarrow> 'j ResponseBody" where
  "body_of ev = (case ev of Response b x \<Rightarrow> b | OtherEvent e \<Rightarrow> NullBody)"

definition arraybuffer_body :: "('j, 'x, 'e) HttpEvent \<Rightarrow> 't failure + 'j ResponseBody" where
  "arraybuffer_body res =
     (if body_of res \<noteq> NullBody \<and> \<not> (case body_of res of ArrayBufferBody bs \<Rightarrow> True | _ \<Rightarrow> False)
      then Inl (JsError ''Response is not an ArrayBuffer.'')
      else Inr (body_of res))"

definition blob_body :: "('j, 'x, 'e) HttpEvent \<Rightarrow> 't failure + 'j ResponseBody" where
  "blob_body res =
     (if body_of res \<noteq> NullBody \<and> \<not> (case body_of res of BlobBody bs \<Rightarrow> True | _ \<Rightarrow> False)
      then Inl (JsError ''Response is not a Blob.'')
      else Inr (body_of res))"

definition text_body :: "('j, 'x, 'e) HttpEvent \<Rightarrow> 't failure + 'j ResponseBody" where
  "text_body res =
     (if body_of res \<noteq> NullBody \<and> \<not> (case body_of res of StringBody str \<Rightarrow> True | _ \<Rightarrow> False)
      then Inl (JsError ''Response is not a string.'')
      else Inr (body_of res))"

definition json_body :: "('j, 'x, 'e) HttpEvent \<Rightarrow> 't failure + 'j ResponseBody" where
  "json_body res = Inr (body_of res)"

text \<open>
  What \<open>request\<close> returns: the events, the responses, or the bodies, each as the function
  from the client and the world at the time of the subscription to what the subscriber
  gets. \<open>res$\<close> is the response stream of the source.
\<close>

datatype ('j, 'x, 'e, 't) observed =
    Events "(('j, 'x, 'e) HttpEvent, 't failure) run"
  | Responses "(('j, 'x, 'e) HttpEvent, 't failure) run"
  | Bodies "('j ResponseBody, 't failure) run"

datatype thrown = Unreachable string

type_synonym ('b, 'hd, 'cx, 'j, 'x, 'e, 't, 's) client =
  "(('b, 'hd, 'cx) HttpRequest, (('j, 'x, 'e) HttpEvent, 't failure) run, 's) HttpClient"

definition res_stream ::
  "('b, 'hd, 'cx, 'j, 'x, 'e, 't, 's) client \<Rightarrow> ('b, 'hd, 'cx) HttpRequest \<Rightarrow> 's \<Rightarrow>
   (('j, 'x, 'e) HttpEvent, 't failure) run \<times> ('b, 'hd, 'cx, 'j, 'x, 'e, 't, 's) client \<times> 's" where
  "res_stream client req s =
     (case dispatch client req s of (events, client', s') \<Rightarrow> (filter_run isResponse events, client', s'))"

text \<open>
  \<open>request(req, options)\<close>. \<open>observe\<close> is the option as given (a string or nothing);
  \<open>options?.observe || "body"\<close> takes \<open>body\<close> for nothing and for the empty string. The
  result is what is thrown at the call, or the observable.
\<close>

definition request ::
  "('b, 'hd, 'cx) HttpRequest \<Rightarrow> string option \<Rightarrow>
   thrown +
   (('b, 'hd, 'cx, 'j, 'x, 'e, 't, 's) client \<Rightarrow> 's \<Rightarrow>
      ('j, 'x, 'e, 't) observed \<times> ('b, 'hd, 'cx, 'j, 'x, 'e, 't, 's) client \<times> 's)" where
  "request req observe =
     (let observeType = (case observe of None \<Rightarrow> ''body'' | Some t \<Rightarrow> if t = [] then ''body'' else t) in
      if observeType = ''events'' then
        Inr (\<lambda>client s. case dispatch client req s of (events, client', s') \<Rightarrow> (Events events, client', s'))
      else if observeType = ''body'' then
        (if responseType req = ''arraybuffer'' then
           Inr (\<lambda>client s. case res_stream client req s of
                  (res, client', s') \<Rightarrow> (Bodies (map_run arraybuffer_body res), client', s'))
         else if responseType req = ''blob'' then
           Inr (\<lambda>client s. case res_stream client req s of
                  (res, client', s') \<Rightarrow> (Bodies (map_run blob_body res), client', s'))
         else if responseType req = ''text'' then
           Inr (\<lambda>client s. case res_stream client req s of
                  (res, client', s') \<Rightarrow> (Bodies (map_run text_body res), client', s'))
         else
           Inr (\<lambda>client s. case res_stream client req s of
                  (res, client', s') \<Rightarrow> (Bodies (map_run json_body res), client', s')))
      else if observeType = ''response'' then
        Inr (\<lambda>client s. case res_stream client req s of
               (res, client', s') \<Rightarrow> (Responses res, client', s'))
      else Inl (Unreachable observeType))"

text \<open>
  Whether a body has the type that a response type stands for, and the message of the
  check for that response type.
\<close>

definition body_matches :: "string \<Rightarrow> 'j ResponseBody \<Rightarrow> bool" where
  "body_matches rt b =
     (if rt = ''arraybuffer'' then (case b of ArrayBufferBody bs \<Rightarrow> True | _ \<Rightarrow> False)
      else if rt = ''blob'' then (case b of BlobBody bs \<Rightarrow> True | _ \<Rightarrow> False)
      else if rt = ''text'' then (case b of StringBody str \<Rightarrow> True | _ \<Rightarrow> False)
      else True)"

definition shape_message :: "string \<Rightarrow> string" where
  "shape_message rt =
     (if rt = ''arraybuffer'' then ''Response is not an ArrayBuffer.''
      else if rt = ''blob'' then ''Response is not a Blob.''
      else ''Response is not a string.'')"

text \<open>What the subscriber of an observable gets, without the client and the world.\<close>

definition subscribed ::
  "thrown + ('c \<Rightarrow> 's \<Rightarrow> 'r \<times> 'c \<times> 's) \<Rightarrow> 'c \<Rightarrow> 's \<Rightarrow> 'r option" where
  "subscribed r client s = (case r of Inl t \<Rightarrow> None | Inr obs \<Rightarrow> Some (fst (obs client s)))"

section \<open>Notions used in the proofs about the codec and the parser\<close>


text \<open>What \<open>standardEncoding\<close> makes of one character.\<close>

definition standardChar :: "char \<Rightarrow> string" where
  "standardChar c = replaceStandard (encodeChar c)"





section \<open>Facts about the interceptor chain assembler\<close>

lemma build_chain_Nil: "build_chain [] adapter = adapter"
  by (simp add: build_chain_def reduceRight_def)

lemma build_chain_Cons:
  "build_chain (i # is) adapter req = i req (build_chain is adapter)"
  by (simp add: build_chain_def reduceRight_def HttpInterceptorHandler_def)

lemma build_chain_spec: "build_chain resolved adapter = spec_chain resolved adapter"
proof (induction resolved)
  case Nil
  show ?case by (simp add: build_chain_Nil)
next
  case (Cons i rest)
  have "build_chain (i # rest) adapter = (\<lambda>req. i req (build_chain rest adapter))"
    by (rule ext) (rule build_chain_Cons)
  then show ?case by (simp add: wraps_def Cons.IH)
qed




lemma handle_unbuilt:
  "chain m = None \<Longrightarrow>
   handle m adapter req s =
     (case getInterceptorsResoved (interceptorList m) s of (resolved, s1) \<Rightarrow>
        (case build_chain resolved adapter req s1 of (out, s2) \<Rightarrow>
           (out, m\<lparr>chain := Some (build_chain resolved adapter)\<rparr>, s2)))"
  by (simp add: handle_def Let_def split: prod.splits)

lemma handle_built:
  "chain m = Some c \<Longrightarrow> handle m adapter req s = (case c req s of (out, s2) \<Rightarrow> (out, m, s2))"
  by (simp add: handle_def)

lemma indexOf_ref_absent: "r \<notin> ref ` set es \<Longrightarrow> indexOf_ref r es = -1"
  by (induction es) (auto simp: Let_def)

lemma indexOf_ref_ge: "indexOf_ref r es \<ge> -1"
  by (induction es) (auto simp: Let_def)

lemma indexOf_ref_bounds:
  "r \<in> ref ` set es \<Longrightarrow> 0 \<le> indexOf_ref r es \<and> indexOf_ref r es < int (length es)"
  by (induction es) (auto simp: Let_def)

lemma splice1_nat: "splice1 (int k) xs = take k xs @ drop (Suc k) xs"
  by (cases "k \<le> length xs") (simp_all add: splice1_def Let_def min_def)

lemma splice1_indexOf_ref:
  "r \<in> ref ` set es \<Longrightarrow> splice1 (indexOf_ref r es) es = remove_first_ref r es"
proof (induction es)
  case Nil
  then show ?case by simp
next
  case (Cons e es)
  show ?case
  proof (cases "ref e = r")
    case True
    then show ?thesis using splice1_nat [of 0 "e # es"] by simp
  next
    case False
    with Cons.prems have mem: "r \<in> ref ` set es" by auto
    from indexOf_ref_bounds [OF mem] obtain k where k: "indexOf_ref r es = int k"
      using nonneg_int_cases by blast
    have "indexOf_ref r (e # es) = int (Suc k)"
      using False k by (simp add: Let_def)
    then have "splice1 (indexOf_ref r (e # es)) (e # es) = e # splice1 (int k) es"
      by (simp only: splice1_nat) simp
    then show ?thesis using False Cons.IH [OF mem] k by simp
  qed
qed

lemma remove_first_ref_absent: "r \<notin> ref ` set es \<Longrightarrow> remove_first_ref r es = es"
  by (induction es) auto

lemma interceptorList_remove:
  "interceptorList (remove i m) = remove_first_ref (ref i) (interceptorList m)"
proof (cases "ref i \<in> ref ` set (interceptorList m)")
  case True
  then show ?thesis
    using indexOf_ref_bounds [OF True] splice1_indexOf_ref [OF True]
    by (simp add: remove_def Let_def)
next
  case False
  then show ?thesis
    using indexOf_ref_absent [OF False] remove_first_ref_absent [OF False]
    by (simp add: remove_def Let_def)
qed

lemma handle_unbuilt_seen:
  "chain m = None \<Longrightarrow> seen (handle m adapter req s) = spec_dispatch (interceptorList m) adapter req s"
  by (simp add: handle_unbuilt seen_def spec_dispatch_def build_chain_spec split: prod.splits)

lemma handle_unbuilt_manager:
  "chain m = None \<Longrightarrow>
   manager_after (handle m adapter req s) =
     m\<lparr>chain := Some (spec_chain (fst (getInterceptorsResoved (interceptorList m) s)) adapter)\<rparr>"
  by (simp add: handle_unbuilt manager_after_def build_chain_spec split: prod.splits)

lemma handle_built_seen: "chain m = Some c \<Longrightarrow> seen (handle m adapter req s) = c req s"
  by (simp add: handle_built seen_def split: prod.splits)

lemma handle_built_manager: "chain m = Some c \<Longrightarrow> manager_after (handle m adapter req s) = m"
  by (simp add: handle_built manager_after_def split: prod.splits)

section \<open>Facts about the parameter container\<close>

lemma init_root:
  assumes "this < length (objs h)" "cloneFrom (objs h ! this) = None"
  shows "HttpParams_init this h =
    Some (if pmap (objs h ! this) = None
          then set_object this ((objs h ! this)\<lparr>pmap := Some []\<rparr>) h else h)"
  using assms by (subst HttpParams_init.simps) (simp add: set_object_def Let_def)

lemma init_resolved:
  assumes "this < length (objs h)" "cloneFrom (objs h ! this) = None" "pmap (objs h ! this) = Some m"
  shows "HttpParams_init this h = Some h"
  using assms by (simp add: init_root)

lemma init_clone:
  assumes c: "this < length (objs h)" "cloneFrom (objs h ! this) = Some cf"
    "pmap (objs h ! this) = None" "updates (objs h ! this) = Some us"
    "cf < length (objs h)" "cf \<noteq> this" "cloneFrom (objs h ! cf) = None"
  shows "\<exists>h'. HttpParams_init this h = Some h' \<and> length (objs h') = length (objs h)
     \<and> (pmap (objs h' ! this), arrays h', next_array h') =
       (case foldl replay_update (copy_entries (source_map h cf) [], arrays h, next_array h) us
        of (m, ars, nxt) \<Rightarrow> (Some m, ars, nxt))
     \<and> encoder (objs h' ! this) = encoder (objs h ! this)
     \<and> cloneFrom (objs h' ! this) = None \<and> updates (objs h' ! this) = None
     \<and> objs h' ! cf = (objs h ! cf)\<lparr>pmap := Some (source_map h cf)\<rparr>
     \<and> (\<forall>a. a \<noteq> this \<and> a \<noteq> cf \<longrightarrow> objs h' ! a = objs h ! a)"
proof -
  define h1 where "h1 = set_object this ((objs h ! this)\<lparr>pmap := Some []\<rparr>) h"
  define h2 where "h2 = (if pmap (objs h ! cf) = None
          then set_object cf ((objs h ! cf)\<lparr>pmap := Some []\<rparr>) h1 else h1)"
  have l1: "length (objs h1) = length (objs h)" by (simp add: h1_def set_object_def)
  have cf1: "objs h1 ! cf = objs h ! cf" using c by (simp add: h1_def set_object_def)
  have i1: "HttpParams_init cf h1 = Some h2"
    using c init_root [of cf h1] by (simp add: l1 cf1 h2_def)
  have l2: "length (objs h2) = length (objs h)" by (simp add: h2_def l1 set_object_def)
  have cf2: "cloneFrom (objs h2 ! cf) = None" "pmap (objs h2 ! cf) = Some (source_map h cf)"
    using c by (auto simp: h2_def cf1 l1 set_object_def source_map_def)
  have i2: "HttpParams_init cf h2 = Some h2"
    using init_resolved [of cf h2] cf2 c l2 by simp
  have t2: "objs h2 ! this = (objs h ! this)\<lparr>pmap := Some []\<rparr>"
    using c by (simp add: h2_def h1_def set_object_def)
  have a2: "arrays h2 = arrays h" "next_array h2 = next_array h"
    by (simp_all add: h2_def h1_def set_object_def)
  obtain m ars nxt where f: "foldl replay_update (copy_entries (source_map h cf) [], arrays h, next_array h) us = (m, ars, nxt)"
    by (cases "foldl replay_update (copy_entries (source_map h cf) [], arrays h, next_array h) us") auto
  have "HttpParams_init this h = Some (set_object this
           ((objs h2 ! this)\<lparr>pmap := Some m, cloneFrom := None, updates := None\<rparr>)
           (h2\<lparr>arrays := ars, next_array := nxt\<rparr>))"
    apply (subst HttpParams_init.simps)
    using c apply (simp add: Let_def h1_def [symmetric])
    apply (simp add: l1 h1_def set_object_def)
    apply (simp add: h1_def [symmetric] set_object_def [symmetric] i1 i2 l2 cf2 t2 a2 f)
    apply (simp add: set_object_def)
    done
  moreover have "objs h2 ! cf = (objs h ! cf)\<lparr>pmap := Some (source_map h cf)\<rparr>"
    using c by (cases "pmap (objs h ! cf)") (simp_all add: h2_def cf1 l1 set_object_def source_map_def)
  moreover have "\<forall>a. a \<noteq> this \<and> a \<noteq> cf \<longrightarrow> objs h2 ! a = objs h ! a"
    by (simp add: h2_def h1_def set_object_def)
  ultimately show ?thesis
    using c by (simp add: set_object_def l2 f t2)
qed


lemma resolve_root:
  assumes "this < length (objs h)" "cloneFrom (objs h ! this) = None"
  shows "resolve h this = Some (source_map h this, arrays h, next_array h)"
  using assms by (simp add: resolve_def init_root source_map_def set_object_def split: option.splits)

lemma resolve_clone:
  assumes "this < length (objs h)" "cloneFrom (objs h ! this) = Some cf"
    "pmap (objs h ! this) = None" "updates (objs h ! this) = Some us"
    "cf < length (objs h)" "cf \<noteq> this" "cloneFrom (objs h ! cf) = None"
  shows "resolve h this =
    Some (foldl replay_update (copy_entries (source_map h cf) [], arrays h, next_array h) us)"
proof -
  from init_clone [OF assms] obtain h' where h': "HttpParams_init this h = Some h'"
    "(pmap (objs h' ! this), arrays h', next_array h') =
       (case foldl replay_update (copy_entries (source_map h cf) [], arrays h, next_array h) us
        of (m, ars, nxt) \<Rightarrow> (Some m, ars, nxt))"
    by blast
  then show ?thesis
    by (auto simp: resolve_def split: prod.splits)
qed

lemma update_fresh_key: "k \<notin> fst ` set al \<Longrightarrow> AList.update k v al = al @ [(k, v)]"
  by (induction al) auto

lemma copy_entries_append:
  "distinct (map fst (s1 @ s2)) \<Longrightarrow>
   foldl (\<lambda>m key. case map_of (s1 @ s2) key of None \<Rightarrow> m | Some ad \<Rightarrow> AList.update key ad m)
     s1 (map fst s2) = s1 @ s2"
proof (induction s2 arbitrary: s1)
  case Nil
  then show ?case by simp
next
  case (Cons e s2)
  obtain k v where e: "e = (k, v)" by (cases e)
  have d: "distinct (map fst ((s1 @ [e]) @ s2))" using Cons.prems by simp
  have k: "k \<notin> fst ` set s1" using Cons.prems e by auto
  have "map_of s1 k = None" using k by (simp add: map_of_eq_None_iff)
  then have look: "map_of (s1 @ e # s2) k = Some v"
    using e by (simp add: map_add_def)
  show ?case
    using Cons.IH [OF d] look e update_fresh_key [OF k] by simp
qed

lemma copy_entries_distinct: "distinct (map fst m) \<Longrightarrow> copy_entries m [] = m"
  using copy_entries_append [of "[]" m] by (simp add: copy_entries_def)


lemma resolve_defined:
  assumes "consistent h c"
  shows "resolve h c \<noteq> None"
proof (cases "cloneFrom (objs h ! c)")
  case None
  then show ?thesis using assms resolve_root [of c h] by (simp add: consistent_def)
next
  case (Some cf)
  obtain us where us: "updates (objs h ! c) = Some us"
    using assms Some by (auto simp: consistent_def)
  show ?thesis
    using resolve_clone [of c h cf us] assms Some us by (simp add: consistent_def)
qed

lemma resolve_after_clone:
  assumes "consistent h c"
  shows "resolve (snd (HttpParams_clone c upd h)) (fst (HttpParams_clone c upd h)) =
    map_option (\<lambda>st. foldl replay_update st (case upd of None \<Rightarrow> [] | Some us \<Rightarrow> us))
      (resolve h c)"
proof -
  define new where "new = (case upd of None \<Rightarrow> [] | Some us \<Rightarrow> us)"
  define old where "old = (case updates (objs h ! c) of None \<Rightarrow> [] | Some us \<Rightarrow> us)"
  define r where "r = (case cloneFrom (objs h ! c) of Some cf \<Rightarrow> cf | None \<Rightarrow> c)"
  define p' where "p' = \<lparr>pmap = None, encoder = encoder (objs h ! c),
      updates = Some (old @ new), cloneFrom = Some r\<rparr>"
  define h1 where "h1 = h\<lparr>objs := objs h @ [p']\<rparr>"
  have cl: "HttpParams_clone c upd h = (length (objs h), h1)"
    by (cases upd) (simp_all add: HttpParams_clone_def new_object_def Let_def h1_def p'_def
        old_def new_def r_def)
  have c: "c < length (objs h)" using assms by (simp add: consistent_def)
  have r: "r < length (objs h)" "cloneFrom (objs h ! r) = None"
    using assms by (auto simp: consistent_def r_def split: option.splits)
  have n: "length (objs h) < length (objs h1)" "objs h1 ! length (objs h) = p'"
    "arrays h1 = arrays h" "next_array h1 = next_array h"
    by (simp_all add: h1_def)
  have keep: "objs h1 ! a = objs h ! a" if "a < length (objs h)" for a
    using that by (simp add: h1_def nth_append)
  have sm: "source_map h1 r = source_map h r"
    by (simp add: source_map_def keep r)
  have p': "cloneFrom p' = Some r" "pmap p' = None" "updates p' = Some (old @ new)"
    by (simp_all add: p'_def)
  have "resolve h1 (length (objs h)) =
      Some (foldl replay_update (copy_entries (source_map h1 r) [], arrays h1, next_array h1) (old @ new))"
  proof (rule resolve_clone)
    show "length (objs h) < length (objs h1)" by (rule n(1))
    show "cloneFrom (objs h1 ! length (objs h)) = Some r" by (simp only: n(2) p')
    show "pmap (objs h1 ! length (objs h)) = None" by (simp only: n(2) p')
    show "updates (objs h1 ! length (objs h)) = Some (old @ new)" by (simp only: n(2) p')
    show "r < length (objs h1)" using r n by simp
    show "r \<noteq> length (objs h)" using r by simp
    show "cloneFrom (objs h1 ! r) = None" using r by (simp only: keep)
  qed
  then have new_res: "resolve h1 (length (objs h)) =
      Some (foldl replay_update (copy_entries (source_map h r) [], arrays h, next_array h) (old @ new))"
    by (simp only: sm n)
  show ?thesis
  proof (cases "cloneFrom (objs h ! c)")
    case None
    then have "r = c" by (simp add: r_def)
    moreover have "old = []" using assms None by (simp add: consistent_def old_def)
    moreover have "distinct (map fst (source_map h c))"
      using assms None by (auto simp: consistent_def source_map_def split: option.splits)
    ultimately show ?thesis
      using new_res resolve_root [OF c None]
      by (simp add: cl copy_entries_distinct new_def)
  next
    case (Some cf)
    then have rc: "r = cf" by (simp add: r_def)
    obtain us where us: "updates (objs h ! c) = Some us"
      using assms Some by (auto simp: consistent_def)
    have "resolve h c = Some (foldl replay_update (copy_entries (source_map h cf) [], arrays h, next_array h) us)"
      using resolve_clone [of c h cf us] assms Some us by (simp add: consistent_def)
    then show ?thesis
      using new_res us by (simp add: cl rc old_def new_def)
  qed
qed

lemma init_after_resolve:
  assumes "consistent h c" "HttpParams_init c h = Some h'"
  shows "c < length (objs h') \<and> cloneFrom (objs h' ! c) = None \<and> pmap (objs h' ! c) \<noteq> None
     \<and> encoder (objs h' ! c) = encoder (objs h ! c)"
proof (cases "cloneFrom (objs h ! c)")
  case None
  then show ?thesis
    using assms init_root [of c h] by (auto simp: consistent_def set_object_def split: if_splits)
next
  case (Some cf)
  obtain us where us: "updates (objs h ! c) = Some us"
    using assms Some by (auto simp: consistent_def)
  from init_clone [of c h cf us] assms Some us show ?thesis
    by (auto simp: consistent_def split: prod.splits)
qed

lemma init_twice:
  assumes "consistent h c" "HttpParams_init c h = Some h'"
  shows "HttpParams_init c h' = Some h'"
  using init_after_resolve [OF assms] init_resolved [of c h'] by auto





lemma indexOf_absent: "x \<notin> set xs \<Longrightarrow> indexOf x xs = -1"
  by (induction xs) (auto simp: Let_def)

lemma indexOf_bounds: "x \<in> set xs \<Longrightarrow> 0 \<le> indexOf x xs \<and> indexOf x xs < int (length xs)"
  by (induction xs) (auto simp: Let_def)

lemma indexOf_length_takeWhile:
  "x \<in> set xs \<Longrightarrow> indexOf x xs = int (length (takeWhile (\<lambda>y. y \<noteq> x) xs))"
  by (induction xs) (auto simp: Let_def)








lemma consistent_clone:
  assumes "consistent h c"
  shows "consistent (snd (HttpParams_clone c upd h)) (fst (HttpParams_clone c upd h))
    \<and> encoder (objs (snd (HttpParams_clone c upd h)) ! fst (HttpParams_clone c upd h))
        = encoder (objs h ! c)"
proof -
  define r where "r = (case cloneFrom (objs h ! c) of Some cf \<Rightarrow> cf | None \<Rightarrow> c)"
  have r: "r < length (objs h)" "cloneFrom (objs h ! r) = None" "updates (objs h ! r) = None"
    "case pmap (objs h ! r) of None \<Rightarrow> True | Some m \<Rightarrow> distinct (map fst m)"
    using assms by (auto simp: consistent_def r_def split: option.splits)
  show ?thesis
    using r by (simp add: HttpParams_clone_def new_object_def Let_def consistent_def
        r_def [symmetric] nth_append)
qed

lemma then_toString_resolve:
  assumes "consistent h c"
  shows "then_toString (c, h) =
    map_option (\<lambda>(m, ars, n). params_text (encoder (objs h ! c)) m ars) (resolve h c)"
proof -
  obtain m ars n where st: "resolve h c = Some (m, ars, n)"
    using resolve_defined [OF assms] by (cases "resolve h c") auto
  then obtain h1 where h1: "HttpParams_init c h = Some h1" "pmap (objs h1 ! c) = Some m"
    "arrays h1 = ars"
    by (auto simp: resolve_def split: option.splits Option.bind_splits)
  have again: "HttpParams_init c h1 = Some h1" by (rule init_twice [OF assms h1(1)])
  have enc: "encoder (objs h1 ! c) = encoder (objs h ! c)"
    using init_after_resolve [OF assms h1(1)] by simp
  have "HttpParams_toString c h = Some (params_text (encoder (objs h ! c)) m (arrays h1), h1)"
    by (simp add: HttpParams_toString_def HttpParams_keys_def h1(1,2) again enc
        params_text_def Let_def)
  then show ?thesis
    by (simp add: then_toString_def st h1(3))
qed

lemma then_toString_clone:
  assumes "consistent h c"
  shows "then_toString (HttpParams_clone c None h) = then_toString (c, h)"
proof -
  obtain cl h1 where cl: "HttpParams_clone c None h = (cl, h1)"
    by (cases "HttpParams_clone c None h")
  have c1: "consistent h1 cl" and e1: "encoder (objs h1 ! cl) = encoder (objs h ! c)"
    using consistent_clone [OF assms, of None] by (simp_all add: cl)
  have r1: "resolve h1 cl = resolve h c"
    using resolve_after_clone [OF assms, of None] by (simp add: cl option.map_ident)
  show ?thesis
    by (simp add: cl then_toString_resolve [OF c1] then_toString_resolve [OF assms] e1 r1)
qed

lemma indexOf_before_last:
  "x \<in> set xs \<Longrightarrow> (indexOf x xs < int (length xs) - 1) = (x \<in> set (butlast xs))"
proof (induction xs)
  case Nil
  then show ?case by simp
next
  case (Cons y ys)
  show ?case
  proof (cases "y = x")
    case True
    then show ?thesis by (cases ys) auto
  next
    case False
    with Cons.prems have mem: "x \<in> set ys" by auto
    then have "ys \<noteq> []" by auto
    moreover have "indexOf x ys \<noteq> -1" using indexOf_bounds [OF mem] by simp
    ultimately show ?thesis using False Cons.IH [OF mem] by (auto simp: Let_def)
  qed
qed

lemma joinUrl_spec: "joinUrl u prms = spec_urlWithParams u prms"
proof (cases "CHR ''?'' \<in> set u")
  case True
  then show ?thesis
    using indexOf_bounds [OF True] indexOf_before_last [OF True]
    by (simp add: joinUrl_def spec_urlWithParams_def spec_separator_def Let_def)
next
  case False
  then show ?thesis
    using indexOf_absent [OF False]
    by (simp add: joinUrl_def spec_urlWithParams_def spec_separator_def Let_def)
qed

lemma map_values_all:
  "\<forall>x \<in> set xs. f x = Inr (g x) \<Longrightarrow> map_values f xs e = Run (map g xs) e"
  by (induction xs) auto

lemma map_values_first_throw:
  "\<forall>x \<in> set xs. f x = Inr (g x) \<Longrightarrow> f y = Inl t \<Longrightarrow>
   map_values f (xs @ y # zs) e = Run (map g xs) (Failed t)"
  by (induction xs) auto

lemma request_body_mode:
  assumes "observe = None \<or> observe = Some [] \<or> observe = Some ''body''"
  shows "request req observe =
    Inr (\<lambda>client s. case res_stream client req s of
           (res, client', s') \<Rightarrow>
             (Bodies (map_run
                (if responseType req = ''arraybuffer'' then arraybuffer_body
                 else if responseType req = ''blob'' then blob_body
                 else if responseType req = ''text'' then text_body
                 else json_body) res), client', s'))"
  using assms by (auto simp: request_def Let_def)

lemma checked_body:
  assumes "rt = ''arraybuffer'' \<or> rt = ''blob'' \<or> rt = ''text''"
  shows "(if rt = ''arraybuffer'' then arraybuffer_body
          else if rt = ''blob'' then blob_body
          else if rt = ''text'' then text_body
          else json_body) ev =
         (if body_of ev \<noteq> NullBody \<and> \<not> body_matches rt (body_of ev)
          then Inl (JsError (shape_message rt)) else Inr (body_of ev))"
  using assms
  by (auto simp: arraybuffer_body_def blob_body_def text_body_def body_matches_def shape_message_def)

section \<open>Facts about the codec and the parser\<close>





lemma replaceStandard_short: "length s < 3 \<Longrightarrow> replaceStandard s = s"
  by (cases s rule: replaceStandard.cases) simp_all











lemma standardChar_plain: "uriUnescaped c \<Longrightarrow> standardChar c = [c]"
  by (simp add: standardChar_def encodeChar_def)























lemma split_amp_nonempty: "split_amp s \<noteq> []"
  by (induction s) (auto split: list.splits)





























subsection \<open>Consistency of the store is kept by every operation\<close>

text \<open>
  The constructor, \<open>clone\<close> (and so \<open>append\<close>, \<open>set\<close> and \<open>delete\<close>) and \<open>init\<close>
  (and so every query) take a store whose objects are all consistent to one whose objects
  are all consistent; \<open>init\<close> moreover returns on every object of such a store. The stores
  that the program can reach from the empty one are therefore consistent.
\<close>

lemma constructor_with_encoder_only:
  "new_HttpParams \<lparr>fromString = None, fromObject = None, encoder_opt = Some e\<rparr> h =
     Inr (new_object \<lparr>pmap = None, encoder = e, updates = None, cloneFrom = None\<rparr> h)"
  by (simp add: new_HttpParams_def truthy_string_def)

lemma consistent_extend:
  "consistent h a \<Longrightarrow> consistent (h\<lparr>objs := objs h @ [p]\<rparr>) a"
  by (auto simp: consistent_def nth_append split: option.splits)

lemma consistent_arrays:
  "consistent (h\<lparr>arrays := ars, next_array := n\<rparr>) a = consistent h a"
  by (simp add: consistent_def cong: option.case_cong)

lemma store_map_distinct:
  "distinct (map fst m0) \<Longrightarrow> store_map es m0 h = (m, h') \<Longrightarrow>
   distinct (map fst m) \<and> objs h' = objs h"
proof (induction es arbitrary: m0 h)
  case Nil
  then show ?case by simp
next
  case (Cons e es)
  obtain key xs where e: "e = (key, xs)" by (cases e)
  show ?case
    using Cons.IH [of "AList.update key (next_array h) m0"
        "h\<lparr>arrays := (arrays h)(next_array h := xs), next_array := Suc (next_array h)\<rparr>"]
      Cons.prems
    by (simp add: e new_array_def distinct_update)
qed

lemma consistent_same_objs:
  "objs h' = objs h \<Longrightarrow> consistent h' a = consistent h a"
  by (simp add: consistent_def cong: option.case_cong)

lemma constructor_keeps_consistent:
  assumes "\<forall>a < length (objs h). consistent h a"
    and "new_HttpParams options h = Inr (c, h')"
  shows "\<forall>a < length (objs h'). consistent h' a"
proof -
  have root: "\<forall>a < length (objs (h0\<lparr>objs := objs h0 @ [p]\<rparr>)). consistent (h0\<lparr>objs := objs h0 @ [p]\<rparr>) a"
    if "objs h0 = objs h" "cloneFrom p = None" "updates p = None"
      "case pmap p of None \<Rightarrow> True | Some m \<Rightarrow> distinct (map fst m)" for h0 p
  proof (intro allI impI)
    fix a assume "a < length (objs (h0\<lparr>objs := objs h0 @ [p]\<rparr>))"
    then have "a < length (objs h) \<or> a = length (objs h0)" using that(1) by (simp add: less_Suc_eq)
    then consider "a < length (objs h)" | "a = length (objs h0)" by blast
    then show "consistent (h0\<lparr>objs := objs h0 @ [p]\<rparr>) a"
    proof cases
      case 1
      then have "consistent h0 a" using assms(1) consistent_same_objs [OF that(1)] by simp
      then show ?thesis by (rule consistent_extend)
    next
      case 2
      then show ?thesis using that(2,3,4) by (simp add: consistent_def)
    qed
  qed
  show ?thesis
  proof (cases "truthy_string (fromString options)")
    case True
    then obtain parsed where p: "paramParser (case fromString options of None \<Rightarrow> [] | Some raw \<Rightarrow> raw)
        (case encoder_opt options of Some e \<Rightarrow> e | None \<Rightarrow> HttpClientDefaults_encoder h) = Some parsed"
      and fo: "fromObject options = None"
      using assms(2) by (auto simp: new_HttpParams_def Let_def split: if_splits option.splits)
    obtain m h0 where st: "store_map parsed [] h = (m, h0)" by (cases "store_map parsed [] h")
    from store_map_distinct [OF _ st] have d: "distinct (map fst m)" "objs h0 = objs h" by simp_all
    have "h' = h0\<lparr>objs := objs h0 @ [\<lparr>pmap = Some m,
        encoder = (case encoder_opt options of Some e \<Rightarrow> e | None \<Rightarrow> HttpClientDefaults_encoder h),
        updates = None, cloneFrom = None\<rparr>]\<rparr>"
      using assms(2) True p fo st by (simp add: new_HttpParams_def Let_def new_object_def)
    then show ?thesis using root [OF d(2), of "\<lparr>pmap = Some m,
        encoder = (case encoder_opt options of Some e \<Rightarrow> e | None \<Rightarrow> HttpClientDefaults_encoder h),
        updates = None, cloneFrom = None\<rparr>"] d(1) by simp
  next
    case False
    show ?thesis
    proof (cases "fromObject options")
      case None
      then have "h' = h\<lparr>objs := objs h @ [\<lparr>pmap = None,
        encoder = (case encoder_opt options of Some e \<Rightarrow> e | None \<Rightarrow> HttpClientDefaults_encoder h),
        updates = None, cloneFrom = None\<rparr>]\<rparr>"
        using assms(2) False by (simp add: new_HttpParams_def Let_def new_object_def)
      then show ?thesis using root [of h "\<lparr>pmap = None,
        encoder = (case encoder_opt options of Some e \<Rightarrow> e | None \<Rightarrow> HttpClientDefaults_encoder h),
        updates = None, cloneFrom = None\<rparr>"] by simp
    next
      case (Some obj)
      obtain m h0 where st: "store_map (map (\<lambda>(key, v). (key, case v of Array xs \<Rightarrow> xs | Scalar x \<Rightarrow> [x])) obj) [] h
          = (m, h0)"
        by (cases "store_map (map (\<lambda>(key, v). (key, case v of Array xs \<Rightarrow> xs | Scalar x \<Rightarrow> [x])) obj) [] h")
      from store_map_distinct [OF _ st] have d: "distinct (map fst m)" "objs h0 = objs h" by simp_all
      have "h' = h0\<lparr>objs := objs h0 @ [\<lparr>pmap = Some m,
        encoder = (case encoder_opt options of Some e \<Rightarrow> e | None \<Rightarrow> HttpClientDefaults_encoder h),
        updates = None, cloneFrom = None\<rparr>]\<rparr>"
        using assms(2) False Some st by (simp add: new_HttpParams_def Let_def new_object_def)
      then show ?thesis using root [OF d(2), of "\<lparr>pmap = Some m,
        encoder = (case encoder_opt options of Some e \<Rightarrow> e | None \<Rightarrow> HttpClientDefaults_encoder h),
        updates = None, cloneFrom = None\<rparr>"] d(1) by simp
    qed
  qed
qed

lemma clone_keeps_consistent:
  assumes "\<forall>a < length (objs h). consistent h a" and "c < length (objs h)"
  shows "\<forall>a < length (objs (snd (HttpParams_clone c upd h))). consistent (snd (HttpParams_clone c upd h)) a"
proof (intro allI impI)
  fix a assume a: "a < length (objs (snd (HttpParams_clone c upd h)))"
  have cl: "fst (HttpParams_clone c upd h) = length (objs h)"
    by (simp add: HttpParams_clone_def new_object_def Let_def)
  have "\<exists>p. snd (HttpParams_clone c upd h) = h\<lparr>objs := objs h @ [p]\<rparr>"
    unfolding HttpParams_clone_def new_object_def Let_def snd_conv by (rule exI) (rule refl)
  then obtain p where p: "snd (HttpParams_clone c upd h) = h\<lparr>objs := objs h @ [p]\<rparr>" by blast
  from a p have "a < length (objs h) \<or> a = length (objs h)" by (simp add: less_Suc_eq)
  then consider "a < length (objs h)" | "a = length (objs h)" by blast
  then show "consistent (snd (HttpParams_clone c upd h)) a"
  proof cases
    case 1
    then show ?thesis using assms(1) consistent_extend [of h a p] by (simp add: p)
  next
    case 2
    then show ?thesis using consistent_clone [of h c upd] assms cl by simp
  qed
qed


lemma replay_update_distinct:
  "distinct (map fst (fst st)) \<Longrightarrow> distinct (map fst (fst (replay_update st u)))"
  by (cases st) (simp add: replay_update_def Let_def distinct_update distinct_delete
      split: Op.splits option.splits)

lemma replay_updates_distinct:
  "distinct (map fst (fst st)) \<Longrightarrow> distinct (map fst (fst (foldl replay_update st us)))"
  by (induction us arbitrary: st) (simp_all add: replay_update_distinct)

lemma init_keeps_consistent:
  assumes all: "\<forall>a < length (objs h). consistent h a" and c: "c < length (objs h)"
  shows "\<exists>h'. HttpParams_init c h = Some h' \<and> (\<forall>a < length (objs h'). consistent h' a)"
proof (cases "cloneFrom (objs h ! c)")
  case None
  have i: "HttpParams_init c h = Some (if pmap (objs h ! c) = None
          then set_object c ((objs h ! c)\<lparr>pmap := Some []\<rparr>) h else h)"
    using c None by (rule init_root)
  show ?thesis
  proof (cases "pmap (objs h ! c)")
    case (Some m)
    then show ?thesis using i all by simp
  next
    case pn: None
    define h' where "h' = set_object c ((objs h ! c)\<lparr>pmap := Some []\<rparr>) h"
    have "consistent h' a" if a: "a < length (objs h)" for a
    proof (cases "a = c")
      case True
      have "consistent h c" using all c by simp
      then show ?thesis using True c None
        by (simp add: consistent_def h'_def set_object_def)
    next
      case False
      have ca: "consistent h a" using all a by simp
      show ?thesis
      proof (cases "cloneFrom (objs h ! a)")
        case None
        then show ?thesis using ca False a
          by (simp add: consistent_def h'_def set_object_def cong: option.case_cong)
      next
        case (Some cf)
        then show ?thesis using ca False a
          by (cases "cf = c") (simp_all add: consistent_def h'_def set_object_def cong: option.case_cong)
      qed
    qed
    then show ?thesis using i pn by (simp add: h'_def [symmetric]) (simp add: h'_def set_object_def)
  qed
next
  case (Some cf)
  have cc: "consistent h c" using all c by simp
  obtain us where us: "updates (objs h ! c) = Some us" and pn: "pmap (objs h ! c) = None"
    and cf: "cf < length (objs h)" "cf \<noteq> c" "cloneFrom (objs h ! cf) = None"
      "updates (objs h ! cf) = None"
    and d: "distinct (map fst (source_map h cf))"
    using cc Some by (auto simp: consistent_def source_map_def split: option.splits)
  from init_clone [OF c Some pn us cf(1,2,3)]
  obtain h' where i: "HttpParams_init c h = Some h'" and l: "length (objs h') = length (objs h)"
    and m: "(pmap (objs h' ! c), arrays h', next_array h') =
       (case foldl replay_update (copy_entries (source_map h cf) [], arrays h, next_array h) us
        of (m, ars, nxt) \<Rightarrow> (Some m, ars, nxt))"
    and r: "cloneFrom (objs h' ! c) = None" "updates (objs h' ! c) = None"
    and s: "objs h' ! cf = (objs h ! cf)\<lparr>pmap := Some (source_map h cf)\<rparr>"
    and o: "\<forall>a. a \<noteq> c \<and> a \<noteq> cf \<longrightarrow> objs h' ! a = objs h ! a"
    by blast
  obtain mm ars nxt where f: "foldl replay_update (copy_entries (source_map h cf) [], arrays h, next_array h) us = (mm, ars, nxt)"
    by (cases "foldl replay_update (copy_entries (source_map h cf) [], arrays h, next_array h) us") auto
  have "distinct (map fst (fst (foldl replay_update (copy_entries (source_map h cf) [], arrays h, next_array h) us)))"
    by (rule replay_updates_distinct) (simp add: copy_entries_distinct d)
  then have dm: "distinct (map fst mm)" by (simp add: f)
  have pm: "pmap (objs h' ! c) = Some mm" using m by (simp add: f)
  have "consistent h' a" if a: "a < length (objs h)" for a
  proof -
    have ca: "consistent h a" using all a by simp
    consider "a = c" | "a = cf" | "a \<noteq> c" "a \<noteq> cf" by blast
    then show ?thesis
    proof cases
      case 1
      then show ?thesis using r pm dm a l by (simp add: consistent_def)
    next
      case 2
      then show ?thesis using s cf d a l by (simp add: consistent_def)
    next
      case 3
      then have same: "objs h' ! a = objs h ! a" using o by simp
      show ?thesis
      proof (cases "cloneFrom (objs h ! a)")
        case None
        then show ?thesis using ca same a l by (simp add: consistent_def cong: option.case_cong)
      next
        case sc: (Some cf')
        have ne: "cf' \<noteq> c" using ca sc Some by (auto simp: consistent_def)
        show ?thesis
        proof (cases "cf' = cf")
          case True
          then show ?thesis using ca same a l sc s d cf 3 by (simp add: consistent_def)
        next
          case False
          then have "objs h' ! cf' = objs h ! cf'" using o ne by simp
          then show ?thesis using ca same a l sc by (simp add: consistent_def cong: option.case_cong)
        qed
      qed
    qed
  qed
  then show ?thesis using i l by simp
qed

section \<open>Claims about the interceptor chain assembler\<close>





text \<open>
  Claim C10. After a dispatch has built the chain over adapter \<open>T1\<close>, a later call
  \<open>handle(T2, req')\<close> is answered by that chain, which ends in \<open>T1\<close>; \<open>T2\<close> is not used, and
  the manager stays as it was, so the same holds for every call after it. Once \<open>add\<close>,
  \<open>remove\<close> or \<open>removeByIndex\<close> has run, the next call builds a chain that ends in the
  adapter of that call.
\<close>

theorem C10_cached_chain_keeps_adapter:
  "seen (handle (manager_after (handle (m\<lparr>chain := None\<rparr>) T1 req s)) T2 req' s')
     = spec_chain (fst (getInterceptorsResoved (interceptorList m) s)) T1 req' s'
   \<and> manager_after (handle (manager_after (handle (m\<lparr>chain := None\<rparr>) T1 req s)) T2 req' s')
     = manager_after (handle (m\<lparr>chain := None\<rparr>) T1 req s)
   \<and> seen (handle (add i (manager_after (handle (m\<lparr>chain := None\<rparr>) T1 req s))) T2 req' s')
     = spec_dispatch (interceptorList m @ [i]) T2 req' s'
   \<and> seen (handle (remove i (manager_after (handle (m\<lparr>chain := None\<rparr>) T1 req s))) T2 req' s')
     = spec_dispatch (remove_first_ref (ref i) (interceptorList m)) T2 req' s'
   \<and> seen (handle (removeByIndex n (manager_after (handle (m\<lparr>chain := None\<rparr>) T1 req s))) T2 req' s')
     = spec_dispatch (splice1 n (interceptorList m)) T2 req' s'"
proof -
  define m1 where "m1 = manager_after (handle (m\<lparr>chain := None\<rparr>) T1 req s)"
  have m1: "m1 = m\<lparr>chain := Some (spec_chain (fst (getInterceptorsResoved (interceptorList m) s)) T1)\<rparr>"
    unfolding m1_def by (simp add: handle_unbuilt_manager)
  have ch: "chain m1 = Some (spec_chain (fst (getInterceptorsResoved (interceptorList m) s)) T1)"
    by (simp add: m1)
  have li: "interceptorList m1 = interceptorList m"
    by (simp add: m1)
  have a: "seen (handle m1 T2 req' s') = spec_chain (fst (getInterceptorsResoved (interceptorList m) s)) T1 req' s'"
    by (rule handle_built_seen [OF ch])
  have b: "manager_after (handle m1 T2 req' s') = m1"
    by (rule handle_built_manager [OF ch])
  have c1: "chain (add i m1) = None" and c2: "chain (remove i m1) = None"
    and c3: "chain (removeByIndex n m1) = None"
    by (simp_all add: add_def remove_def removeByIndex_def Let_def)
  have d1: "seen (handle (add i m1) T2 req' s') = spec_dispatch (interceptorList m @ [i]) T2 req' s'"
    using handle_unbuilt_seen [OF c1] by (simp add: add_def li)
  have d2: "seen (handle (remove i m1) T2 req' s')
      = spec_dispatch (remove_first_ref (ref i) (interceptorList m)) T2 req' s'"
    using handle_unbuilt_seen [OF c2] by (simp add: interceptorList_remove li)
  have d3: "seen (handle (removeByIndex n m1) T2 req' s')
      = spec_dispatch (splice1 n (interceptorList m)) T2 req' s'"
    using handle_unbuilt_seen [OF c3] by (simp add: removeByIndex_def li)
  show ?thesis
    unfolding m1_def [symmetric]
    by (intro conjI) (rule a, rule b, rule d1, rule d2, rule d3)
qed

section \<open>Claims about the parameter container\<close>

text \<open>
  Claim C1 says that \<open>append\<close>, \<open>set\<close> and \<open>delete\<close> never change what the receiver shows,
  also after the new container has been resolved. The code does not keep this: \<open>init\<close>
  puts the arrays of the source into the map of the clone, and \<open>push\<close> (and \<open>splice\<close>)
  then change them in place. Here \<open>p\<close> is built from \<open>a=1\<close> and shows \<open>["1"]\<close> for
  \<open>a\<close>; \<open>q = p.append("a", "2")\<close> is resolved by \<open>q.toString()\<close>; after that \<open>p\<close> shows
  \<open>["1", "2"]\<close>.
\<close>

theorem C1_append_changes_receiver:
  "(case new_HttpParams \<lparr>fromString = Some ''a=1'', fromObject = None, encoder_opt = None\<rparr> empty_heap of
      Inl e \<Rightarrow> False
    | Inr (p, h1) \<Rightarrow>
        (case HttpParams_getAll p ''a'' h1 of
           None \<Rightarrow> False
         | Some (before, h2) \<Rightarrow>
             (case HttpParams_append p ''a'' ''2'' h2 of
                (q, h3) \<Rightarrow>
                  (case HttpParams_toString q h3 of
                     None \<Rightarrow> False
                   | Some (str, h4) \<Rightarrow>
                       (case HttpParams_getAll p ''a'' h4 of
                          None \<Rightarrow> False
                        | Some (after, h5) \<Rightarrow>
                            before = Some [''1''] \<and> str = ''a=1&a=2'' \<and> after = Some [''1'', ''2''])))))"
  by code_simp




text \<open>
  Claim C5 says that resolving a container gives the same mapping whichever other
  containers of the chain have been resolved before. The code does not keep this, by the
  defect shown for claim C1. Here \<open>b\<close> is built from \<open>a=1\<close>, \<open>c = b.append("a", "2")\<close> and
  \<open>d = c.append("a", "3")\<close>. Resolved first, \<open>d\<close> gives \<open>a=1&a=2&a=3\<close>; resolved after
  \<open>c\<close>, it gives \<open>a=1&a=2&a=2&a=3\<close>. (That a second \<open>init\<close> of the same object changes
  nothing holds: lemma \<open>init_twice\<close>.)
\<close>

theorem C5_resolution_order_changes_mapping:
  "(case new_HttpParams \<lparr>fromString = Some ''a=1'', fromObject = None, encoder_opt = None\<rparr> empty_heap of
      Inl e \<Rightarrow> False
    | Inr (b, h0) \<Rightarrow>
        (case HttpParams_append b ''a'' ''2'' h0 of
           (c, h1) \<Rightarrow>
             (case HttpParams_append c ''a'' ''3'' h1 of
                (d, h2) \<Rightarrow>
                  (case HttpParams_toString d h2 of
                     None \<Rightarrow> False
                   | Some (alone, h3) \<Rightarrow>
                       (case HttpParams_toString c h2 of
                          None \<Rightarrow> False
                        | Some (str_c, h4) \<Rightarrow>
                            (case HttpParams_toString d h4 of
                               None \<Rightarrow> False
                             | Some (after_c, h5) \<Rightarrow>
                                 alone = ''a=1&a=2&a=3'' \<and> str_c = ''a=1&a=2''
                                 \<and> after_c = ''a=1&a=2&a=2&a=3''))))))"
  by code_simp

text \<open>
  Claim C9, as amended. The constructor raises the configuration error exactly when
  \<open>fromString\<close> is given and not empty and \<open>fromObject\<close> is given; it raises it itself,
  before any object exists, and in no other case: not with one source, not with none, and
  not with an empty \<open>fromString\<close> beside a \<open>fromObject\<close>.
\<close>

theorem C9_both_sources_is_config_error:
  "(new_HttpParams options h = Inl ConfigError) =
     (fromString options \<noteq> None \<and> fromString options \<noteq> Some [] \<and> fromObject options \<noteq> None)
   \<and> (new_HttpParams \<lparr>fromString = Some (c # s), fromObject = Some obj, encoder_opt = e\<rparr> h
        = Inl ConfigError)"
proof -
  have a: "(new_HttpParams options h = Inl ConfigError) =
     (fromString options \<noteq> None \<and> fromString options \<noteq> Some [] \<and> fromObject options \<noteq> None)"
    by (cases "fromString options"; cases "fromObject options")
       (auto simp: new_HttpParams_def truthy_string_def Let_def new_object_def
             split: option.splits prod.splits)
  have b: "new_HttpParams \<lparr>fromString = Some (c # s), fromObject = Some obj, encoder_opt = e\<rparr> h
        = Inl ConfigError"
    by (simp add: new_HttpParams_def truthy_string_def Let_def)
  show ?thesis by (intro conjI) (rule a, rule b)
qed

text \<open>
  Claim C9 as stated fails for an empty raw string: \<open>!!options.fromString\<close> is false for
  the empty string, so the options \<open>{fromString: "", fromObject: {a: "1"}}\<close> build a
  container from the object.
\<close>

theorem C9_empty_string_counterexample:
  "\<not> isl (new_HttpParams
      \<lparr>fromString = Some '''', fromObject = Some [(''a'', Scalar ''1'')], encoder_opt = None\<rparr> empty_heap)
   \<and> then_getAll (returned (new_HttpParams
      \<lparr>fromString = Some '''', fromObject = Some [(''a'', Scalar ''1'')], encoder_opt = None\<rparr> empty_heap)) ''a''
     = Some (Some [''1''])"
  by code_simp

section \<open>Claims about the request value\<close>

text \<open>
  Claim C6, as amended. Let \<open>p\<close> be a container of the store and \<open>u\<close> the URL of the
  options. The constructor returns, and the field \<open>urlWithParams\<close> it has computed is \<open>u\<close> if
  \<open>p\<close> serializes to the empty string; otherwise it is \<open>u\<close>, a separator and the
  serialization of \<open>p\<close>, where the separator is \<open>?\<close> if \<open>u\<close> contains no \<open>?\<close>, \<open>&\<close> if a
  \<open>?\<close> occurs before the last character of \<open>u\<close>, and nothing in the case that is left, in
  which the only \<open>?\<close> of \<open>u\<close> is its last character. Without parameters in the options the
  field is \<open>u\<close>. The field is a value of the request record, computed by the constructor.
\<close>

theorem C6_urlWithParams:
  assumes "consistent h p"
  shows "then_toString (p, h) \<noteq> None
    \<and> map_option (\<lambda>r. urlWithParams (fst r))
        (new_HttpRequest ext (options\<lparr>init_url := u, init_params := Some p\<rparr>) h)
      = map_option (spec_urlWithParams u) (then_toString (p, h))
    \<and> (CHR ''?'' \<in> set u \<and> CHR ''?'' \<notin> set (butlast u) \<longrightarrow> u \<noteq> [] \<and> last u = CHR ''?'')
    \<and> map_option (\<lambda>r. urlWithParams (fst r))
        (new_HttpRequest ext (options\<lparr>init_url := u, init_params := None\<rparr>) h) = Some u"
proof -
  have n: "map_option (\<lambda>r. urlWithParams (fst r))
        (new_HttpRequest ext (options\<lparr>init_url := u, init_params := None\<rparr>) h) = Some u"
    by (simp add: new_HttpRequest_def new_HttpParams_def truthy_string_def new_object_def Let_def)
  have d: "then_toString (p, h) \<noteq> None"
    using resolve_defined [OF assms] by (simp add: then_toString_resolve [OF assms])
  obtain cl h1 where cl: "HttpParams_clone p None h = (cl, h1)"
    by (cases "HttpParams_clone p None h")
  have ts: "map_option fst (HttpParams_toString cl h1) = then_toString (p, h)"
    using then_toString_clone [OF assms] by (simp add: cl then_toString_def)
  have "map_option (\<lambda>r. urlWithParams (fst r))
        (new_HttpRequest ext (options\<lparr>init_url := u, init_params := Some p\<rparr>) h)
      = map_option (spec_urlWithParams u) (map_option fst (HttpParams_toString cl h1))"
    by (cases "HttpParams_toString cl h1")
       (auto simp: new_HttpRequest_def Let_def cl joinUrl_spec)
  then have e: "map_option (\<lambda>r. urlWithParams (fst r))
        (new_HttpRequest ext (options\<lparr>init_url := u, init_params := Some p\<rparr>) h)
      = map_option (spec_urlWithParams u) (then_toString (p, h))"
    by (simp only: ts)
  have l: "CHR ''?'' \<in> set u \<and> CHR ''?'' \<notin> set (butlast u) \<longrightarrow> u \<noteq> [] \<and> last u = CHR ''?''"
  proof (intro impI conjI)
    assume a: "CHR ''?'' \<in> set u \<and> CHR ''?'' \<notin> set (butlast u)"
    then show "u \<noteq> []" by auto
    then have "u = butlast u @ [last u]" by simp
    then have "set u = set (butlast u) \<union> {last u}" by (metis set_append list.set(1,2) Un_insert_right sup_bot.right_neutral)
    with a show "last u = CHR ''?''" by auto
  qed
  show ?thesis by (intro conjI) (rule d, rule e, rule l, rule n)
qed

text \<open>
  The example of the claim: the URL \<open>/x?y=1\<close> and parameters from the object \<open>{z: 2}\<close>
  (the number is stored as it is and printed as \<open>2\<close>; the model holds the string).
\<close>

theorem C6_urlWithParams_witness:
  "consistent (snd (returned (new_HttpParams
       \<lparr>fromString = None, fromObject = Some [(''z'', Scalar ''2'')], encoder_opt = None\<rparr> empty_heap))) 0
   \<and> map_option (\<lambda>r. urlWithParams (fst r))
        (new_HttpRequest \<lparr>new_HttpHeaders = (), HttpHeaders_clone = (\<lambda>x. x), new_HttpContext = ()\<rparr>
           \<lparr>init_method = ''GET'', init_url = ''/x?y=1'', init_body = (None :: unit option),
            init_params = Some 0, init_headers = None, init_reportProgress = None,
            init_responseType = None, init_withCredentials = None, init_context = None\<rparr>
           (snd (returned (new_HttpParams
              \<lparr>fromString = None, fromObject = Some [(''z'', Scalar ''2'')], encoder_opt = None\<rparr> empty_heap))))
      = Some ''/x?y=1&z=2''"
proof -
  define H where "H = snd (returned (new_HttpParams
       \<lparr>fromString = None, fromObject = Some [(''z'', Scalar ''2'')], encoder_opt = None\<rparr> empty_heap))"
  have c: "consistent H 0" unfolding H_def by code_simp
  have t: "then_toString (0, H) = Some ''z=2''" unfolding H_def by code_simp
  have s: "spec_urlWithParams ''/x?y=1'' ''z=2'' = ''/x?y=1&z=2''" by code_simp
  have "map_option (\<lambda>r. urlWithParams (fst r))
        (new_HttpRequest \<lparr>new_HttpHeaders = (), HttpHeaders_clone = (\<lambda>x. x), new_HttpContext = ()\<rparr>
           \<lparr>init_method = ''GET'', init_url = ''/x?y=1'', init_body = (None :: unit option),
            init_params = Some 0, init_headers = None, init_reportProgress = None,
            init_responseType = None, init_withCredentials = None, init_context = None\<rparr> H)
      = Some ''/x?y=1&z=2''"
    using C6_urlWithParams [OF c, where
        ext = "\<lparr>new_HttpHeaders = (), HttpHeaders_clone = (\<lambda>x. x), new_HttpContext = ()\<rparr>"
        and options = "\<lparr>init_method = ''GET'', init_url = ''/x?y=1'', init_body = (None :: unit option),
            init_params = Some 0, init_headers = None, init_reportProgress = None,
            init_responseType = None, init_withCredentials = None, init_context = None\<rparr>"
        and u = "''/x?y=1''"]
    by (simp add: t s)
  with c show ?thesis unfolding H_def by blast
qed

text \<open>
  Claim C6 as stated fails where it says that there is no separator when \<open>u\<close> ends in
  \<open>?\<close>: the URL \<open>a??\<close> ends in \<open>?\<close>, its first \<open>?\<close> is not at the end, and the parameters
  are joined with \<open>&\<close>.
\<close>

theorem C6_url_ending_in_second_question_mark_counterexample:
  "last ''a??'' = CHR ''?''
   \<and> then_toString (returned (new_HttpParams
       \<lparr>fromString = None, fromObject = Some [(''z'', Scalar ''2'')], encoder_opt = None\<rparr> empty_heap))
      = Some ''z=2''
   \<and> map_option (\<lambda>r. urlWithParams (fst r))
        (new_HttpRequest \<lparr>new_HttpHeaders = (), HttpHeaders_clone = (\<lambda>x. x), new_HttpContext = ()\<rparr>
           \<lparr>init_method = ''GET'', init_url = ''a??'', init_body = (None :: unit option),
            init_params = Some 0, init_headers = None, init_reportProgress = None,
            init_responseType = None, init_withCredentials = None, init_context = None\<rparr>
           (snd (returned (new_HttpParams
              \<lparr>fromString = None, fromObject = Some [(''z'', Scalar ''2'')], encoder_opt = None\<rparr> empty_heap))))
      = Some ''a??&z=2''"
  by code_simp

section \<open>Claims about the client\<close>

text \<open>
  Claim C8, as amended. With response type \<open>arraybuffer\<close>, \<open>blob\<close> or \<open>text\<close> and observation
  of the body (also by default), \<open>request\<close> throws nothing at the call. When the stream is
  subscribed to and the dispatch yields a response whose body is not null and not of the
  type of the response type, after events whose responses have passed the check, the
  subscriber gets the bodies of those responses and then a failure with the message of the
  check. With response type \<open>json\<close> the subscriber gets the body of every response and the
  end of the event stream: there is no check.
\<close>

theorem C8_body_shape_failure:
  fixes pre :: "('j, 'x, 'ev) HttpEvent list"
    and e :: "'t failure ending"
  assumes rt: "rt = ''arraybuffer'' \<or> rt = ''blob'' \<or> rt = ''text''"
    and req: "responseType req = rt"
    and obs: "observe = None \<or> observe = Some [] \<or> observe = Some ''body''"
    and d: "dispatch client req s = (Run (pre @ Response b x # post) e, client', s')"
    and pre: "\<forall>ev \<in> set pre. isResponse ev \<longrightarrow> body_of ev = NullBody \<or> body_matches rt (body_of ev)"
    and bad: "b \<noteq> NullBody" "\<not> body_matches rt b"
  shows "\<not> isl (request req observe)
    \<and> subscribed (request req observe) client s =
        Some (Bodies (Run (map body_of (filter isResponse pre)) (Failed (JsError (shape_message rt)))))
    \<and> (responseType req' = ''json'' \<longrightarrow>
         subscribed (request req' observe) client s =
           Some (Bodies (case fst (dispatch client req' s) of
                           Run evs e' \<Rightarrow> Run (map body_of (filter isResponse evs)) e')))"
proof -
  define chk :: "('j, 'x, 'ev) HttpEvent \<Rightarrow> 't failure + 'j ResponseBody"
    where "chk = (if responseType req = ''arraybuffer'' then arraybuffer_body
                 else if responseType req = ''blob'' then blob_body
                 else if responseType req = ''text'' then text_body
                 else json_body)"
  have a: "\<not> isl (request req observe)"
    unfolding request_body_mode [OF obs] by simp
  have f: "chk ev = (if body_of ev \<noteq> NullBody \<and> \<not> body_matches rt (body_of ev)
          then Inl (JsError (shape_message rt)) else Inr (body_of ev))" for ev
    unfolding chk_def req by (rule checked_body [OF rt])
  have good: "\<forall>ev \<in> set (filter isResponse pre). chk ev = Inr (body_of ev)"
  proof
    fix ev assume "ev \<in> set (filter isResponse pre)"
    then have "ev \<in> set pre" "isResponse ev" by simp_all
    with pre have "body_of ev = NullBody \<or> body_matches rt (body_of ev)" by blast
    then show "chk ev = Inr (body_of ev)" unfolding f by auto
  qed
  have thr: "chk (Response b x) = Inl (JsError (shape_message rt))"
    unfolding f using bad by (simp add: body_of_def)
  have fl: "filter isResponse (pre @ Response b x # post)
      = filter isResponse pre @ Response b x # filter isResponse post"
    by (simp add: isResponse_def)
  have b: "subscribed (request req observe) client s =
        Some (Bodies (Run (map body_of (filter isResponse pre)) (Failed (JsError (shape_message rt)))))"
  proof -
    have rs: "res_stream client req s =
        (Run (filter isResponse pre @ Response b x # filter isResponse post) e, client', s')"
      unfolding res_stream_def d by (simp only: prod.case filter_run.simps fl)
    have mv: "map_run chk (Run (filter isResponse pre @ Response b x # filter isResponse post) e)
        = Run (map body_of (filter isResponse pre)) (Failed (JsError (shape_message rt)))"
      unfolding map_run.simps by (rule map_values_first_throw [OF good thr])
    show ?thesis
      unfolding request_body_mode [OF obs] chk_def [symmetric] subscribed_def sum.case rs prod.case
        mv fst_conv ..
  qed
  have c: "responseType req' = ''json'' \<longrightarrow>
         subscribed (request req' observe) client s =
           Some (Bodies (case fst (dispatch client req' s) of
                           Run evs e' \<Rightarrow> Run (map body_of (filter isResponse evs)) e'))"
  proof
    assume j: "responseType req' = ''json''"
    obtain evs e' c2 s2 where d2: "dispatch client req' s = (Run evs e', c2, s2)"
      by (cases "dispatch client req' s"; cases "fst (dispatch client req' s)") auto
    have "map_values json_body (filter isResponse evs) e' = Run (map body_of (filter isResponse evs)) e'"
      by (rule map_values_all) (simp add: json_body_def)
    then have mv: "map_run json_body (Run (filter isResponse evs) e')
        = Run (map body_of (filter isResponse evs)) e'"
      by simp
    have rs: "res_stream client req' s = (Run (filter isResponse evs) e', c2, s2)"
      unfolding res_stream_def d2 by simp
    have jf: "(if responseType req' = ''arraybuffer'' then arraybuffer_body
                 else if responseType req' = ''blob'' then blob_body
                 else if responseType req' = ''text'' then text_body
                 else json_body) = (json_body :: ('j, 'x, 'ev) HttpEvent \<Rightarrow> 't failure + 'j ResponseBody)"
      unfolding j by simp
    show "subscribed (request req' observe) client s =
           Some (Bodies (case fst (dispatch client req' s) of
                           Run evs e' \<Rightarrow> Run (map body_of (filter isResponse evs)) e'))"
      unfolding request_body_mode [OF obs] subscribed_def sum.case rs prod.case jf mv fst_conv d2
        run.case ..
  qed
  show ?thesis by (intro conjI) (rule a, rule b, rule c)
qed

text \<open>
  The example of the specification: the response type is \<open>arraybuffer\<close> and the transport
  returns a response with a JSON body.
\<close>

theorem C8_body_shape_failure_witness:
  "dispatch
     \<lparr>client_adapter = (\<lambda>req s. (Run [OtherEvent (), Response (OtherBody ()) ()] Completed, s)),
      client_interceptors = None\<rparr>
     \<lparr>body = (None :: unit option), params = 0, headers = (), reportProgress = False,
      withCredentials = False, req_method = ''GET'', url = None, urlWithParams = ''/data'',
      responseType = ''arraybuffer'', req_context = ()\<rparr> ()
   = (Run ([OtherEvent ()] @ Response (OtherBody ()) () # []) (Completed :: unit failure ending),
      \<lparr>client_adapter = (\<lambda>req s. (Run [OtherEvent (), Response (OtherBody ()) ()] Completed, s)),
       client_interceptors = None\<rparr>, ())
   \<and> \<not> body_matches ''arraybuffer'' (OtherBody ())
   \<and> subscribed
        (request
           \<lparr>body = (None :: unit option), params = 0, headers = (), reportProgress = False,
            withCredentials = False, req_method = ''GET'', url = None, urlWithParams = ''/data'',
            responseType = ''arraybuffer'', req_context = ()\<rparr> None)
        \<lparr>client_adapter = (\<lambda>req s. (Run [OtherEvent (), Response (OtherBody ()) ()] Completed, s)),
         client_interceptors = None\<rparr> ()
      = Some (Bodies (Run [] (Failed (JsError ''Response is not an ArrayBuffer.'' :: unit failure))))"
proof -
  define client :: "(unit, unit, unit, unit, unit, unit, unit, unit) client"
    where "client = \<lparr>client_adapter = (\<lambda>req s. (Run [OtherEvent (), Response (OtherBody ()) ()] Completed, s)),
      client_interceptors = None\<rparr>"
  define req :: "(unit, unit, unit) HttpRequest"
    where "req = \<lparr>body = None, params = 0, headers = (), reportProgress = False,
      withCredentials = False, req_method = ''GET'', url = None, urlWithParams = ''/data'',
      responseType = ''arraybuffer'', req_context = ()\<rparr>"
  have d: "dispatch client req () = (Run ([OtherEvent ()] @ Response (OtherBody ()) () # []) Completed, client, ())"
    by (simp add: dispatch_def client_def)
  have rt: "''arraybuffer'' = ''arraybuffer'' \<or> ''arraybuffer'' = ''blob'' \<or> ''arraybuffer'' = ''text''"
    by simp
  have r: "responseType req = ''arraybuffer''" by (simp add: req_def)
  have nb: "\<not> body_matches ''arraybuffer'' (OtherBody ())" by (simp add: body_matches_def)
  have pre: "\<forall>ev \<in> set [OtherEvent () :: (unit, unit, unit) HttpEvent].
      isResponse ev \<longrightarrow> body_of ev = NullBody \<or> body_matches ''arraybuffer'' (body_of ev)"
    by (simp add: isResponse_def)
  have ob: "None = None \<or> None = Some [] \<or> None = Some ''body''" by simp
  have ne: "OtherBody () \<noteq> NullBody" by simp
  have "subscribed (request req None) client ()
      = Some (Bodies (Run (map body_of (filter isResponse [OtherEvent () :: (unit, unit, unit) HttpEvent]))
                (Failed (JsError (shape_message ''arraybuffer'')))))"
    using C8_body_shape_failure [OF rt r ob d pre ne nb, where req' = req] by (elim conjE)
  then have "subscribed (request req None) client ()
      = Some (Bodies (Run [] (Failed (JsError ''Response is not an ArrayBuffer.''))))"
    by (simp add: isResponse_def shape_message_def)
  with d nb show ?thesis unfolding client_def req_def by blast
qed

text \<open>
  Claim C8 as stated fails for a response without a body: null is not an \<open>ArrayBuffer\<close>,
  and the check lets it through (\<open>res.body !== null && ...\<close>); the stream gives null and
  completes.
\<close>

theorem C8_null_body_counterexample:
  "\<not> body_matches ''arraybuffer'' (NullBody :: unit ResponseBody)
   \<and> subscribed
        (request
           \<lparr>body = (None :: unit option), params = 0, headers = (), reportProgress = False,
            withCredentials = False, req_method = ''GET'', url = None, urlWithParams = ''/data'',
            responseType = ''arraybuffer'', req_context = ()\<rparr> (Some ''body''))
        \<lparr>client_adapter = (\<lambda>req s. (Run [Response NullBody ()] Completed, s)),
         client_interceptors = None\<rparr> ()
      = Some (Bodies (Run [NullBody :: unit ResponseBody] (Completed :: unit failure ending))
              :: (unit, unit, unit, unit) observed)"
  by (simp add: body_matches_def subscribed_def request_def res_stream_def dispatch_def
      isResponse_def arraybuffer_body_def body_of_def)

section \<open>Claims about the parser and the codec\<close>




end
